theory Spec2Isabelle
  imports Main "HOL-Library.AList" "HOL-Library.Multiset"
begin

section \<open>Strings and rows\<close>

text \<open>
  A JavaScript string is modelled as a \<^typ>\<open>string\<close> over 8-bit code units. A parsed CSV
  row is the object the CSV reader yields: its fields in the order \<open>Object.keys\<close> lists
  them, as an association list from column name to value. \<open>row.Key\<close> is \<open>map_of row ''Key''\<close>
  (\<open>None\<close> for \<open>undefined\<close>), and an assignment \<open>row[c] = v\<close> is \<open>AList.update c v row\<close>:
  an existing field keeps its position and takes the new value, a missing one is appended.
\<close>

type_synonym row = "(string \<times> string) list"

definition is_space :: "char \<Rightarrow> bool" where
  "is_space c = (c \<in> set [CHR 0x09, CHR 0x0A, CHR 0x0B, CHR 0x0C, CHR 0x0D, CHR 0x20, CHR 0xA0])"

text \<open>
  \<open>String.prototype.trim\<close>: white space is removed at both ends. Among the 8-bit code units
  the white space of JavaScript is tab, line feed, vertical tab, form feed, carriage return,
  space and no-break space.
\<close>

definition trim :: "string \<Rightarrow> string" where
  "trim s = rev (dropWhile is_space (rev (dropWhile is_space s)))"

text \<open>\<open>v || ''\<close> for a value that is a string or \<open>undefined\<close>.\<close>

definition or_empty :: "string option \<Rightarrow> string" where
  "or_empty v = (case v of None \<Rightarrow> [] | Some s \<Rightarrow> s)"

text \<open>The test \<open>row.Key && row.Key.trim() !== ''\<close> of both utilities' split and merge readers.\<close>

definition key_ok :: "row \<Rightarrow> bool" where
  "key_ok row = (case map_of row ''Key'' of None \<Rightarrow> False | Some k \<Rightarrow> k \<noteq> [] \<and> trim k \<noteq> [])"

definition row_key :: "row \<Rightarrow> string" where
  "row_key row = or_empty (map_of row ''Key'')"

section \<open>The language utility: split and merge\<close>

subsection \<open>Split\<close>

datatype split_error = SplitNoValidData

text \<open>
  The \<open>data\<close> handler of \<open>split\<close> pushes a row when its key passes the test. The result of a
  successful split is the header list written to \<open>original_headers.json\<close> and, for every
  language column, the records handed to the CSV writer.
\<close>

definition split_on_row :: "row list \<Rightarrow> row \<Rightarrow> row list" where
  "split_on_row rows row = (if key_ok row then rows @ [row] else rows)"

definition split_rows :: "row list \<Rightarrow> row list" where
  "split_rows parsed = foldl split_on_row [] parsed"

definition split :: "row list \<Rightarrow> split_error + (string list \<times> (string \<times> row list) list)" where
  "split parsed =
     (let rows = split_rows parsed in
      case rows of
        [] \<Rightarrow> Inl SplitNoValidData
      | first # _ \<Rightarrow>
          (let headers = map fst first;
               langHeaders = filter (\<lambda>h. h \<notin> set [''Key'', ''Comments'', ''Timestamp'']) headers
           in Inr (headers,
                   map (\<lambda>lang. (lang,
                          map (\<lambda>row. [(''Key'', row_key row), (lang, or_empty (map_of row lang))]) rows))
                       langHeaders)))"

subsection \<open>Merge\<close>

text \<open>
  \<open>new Set(array)\<close> and \<open>set.add(x)\<close>: a set keeps the first occurrence of each element, in
  insertion order; its \<open>size\<close> is the length of the list.
\<close>

definition set_add :: "'a list \<Rightarrow> 'a \<Rightarrow> 'a list" where
  "set_add s x = (if x \<in> set s then s else s @ [x])"

definition new_Set :: "'a list \<Rightarrow> 'a list" where
  "new_Set xs = foldl set_add [] xs"

text \<open>
  The state the two readers of \<open>merge\<close> build: the retained rows, the set of trimmed keys
  (a JavaScript \<open>Set\<close>, kept as a list in insertion order), the duplicate counts (a \<open>Map\<close>,
  kept as an association list) and, for the new-language file, the second-column values.
\<close>

record key_scan =
  scan_rows :: "row list"
  scan_keys :: "string list"
  scan_dups :: "(string \<times> nat) list"
  scan_values :: "string list"

definition empty_scan :: key_scan where
  "empty_scan = \<lparr>scan_rows = [], scan_keys = [], scan_dups = [], scan_values = []\<rparr>"

text \<open>\<open>origDuplicates.get(trimmedKey) || 1\<close>\<close>

definition dup_count :: "(string \<times> nat) list \<Rightarrow> string \<Rightarrow> nat" where
  "dup_count dups k = (case map_of dups k of None \<Rightarrow> 1 | Some c \<Rightarrow> if c = 0 then 1 else c)"

definition note_key :: "string \<Rightarrow> key_scan \<Rightarrow> key_scan" where
  "note_key trimmedKey st =
     (if trimmedKey \<in> set (scan_keys st)
      then st\<lparr>scan_dups := AList.update trimmedKey (dup_count (scan_dups st) trimmedKey + 1) (scan_dups st)\<rparr>
      else st\<lparr>scan_keys := set_add (scan_keys st) trimmedKey\<rparr>)"

definition on_orig_row :: "key_scan \<Rightarrow> row \<Rightarrow> key_scan" where
  "on_orig_row st row =
     (if key_ok row
      then note_key (trim (row_key row)) (st\<lparr>scan_rows := scan_rows st @ [row]\<rparr>)
      else st)"

text \<open>\<open>row[Object.keys(row)[1]] || ''\<close>: the value of the row's second field, if it has one.\<close>

definition second_value :: "row \<Rightarrow> string" where
  "second_value row = (case row of _ # (_, v) # _ \<Rightarrow> v | _ \<Rightarrow> [])"

definition on_new_row :: "key_scan \<Rightarrow> row \<Rightarrow> key_scan" where
  "on_new_row st row =
     (if key_ok row
      then note_key (trim (row_key row))
             (st\<lparr>scan_rows := scan_rows st @ [row], scan_values := scan_values st @ [second_value row]\<rparr>)
      else st)"

definition read_orig :: "row list \<Rightarrow> key_scan" where
  "read_orig parsed = foldl on_orig_row empty_scan parsed"

definition read_new :: "row list \<Rightarrow> key_scan" where
  "read_new parsed = foldl on_new_row empty_scan parsed"

definition orig_keys :: "row list \<Rightarrow> string list" where
  "orig_keys parsed = scan_keys (read_orig parsed)"

definition new_keys :: "row list \<Rightarrow> string list" where
  "new_keys parsed = scan_keys (read_new parsed)"

text \<open>The three key sets \<open>merge\<close> logs, and the test of its consistency warning.\<close>

definition matchingKeys :: "string list \<Rightarrow> string list \<Rightarrow> string list" where
  "matchingKeys origKeys newKeys = new_Set (filter (\<lambda>key. key \<in> set newKeys) origKeys)"

definition missingInNew :: "string list \<Rightarrow> string list \<Rightarrow> string list" where
  "missingInNew origKeys newKeys = new_Set (filter (\<lambda>key. key \<notin> set newKeys) origKeys)"

definition ignoredInNew :: "string list \<Rightarrow> string list \<Rightarrow> string list" where
  "ignoredInNew origKeys newKeys = new_Set (filter (\<lambda>key. key \<notin> set origKeys) newKeys)"

definition expectedMatches :: "string list \<Rightarrow> string list \<Rightarrow> int" where
  "expectedMatches origKeys newKeys = int (length origKeys) - int (length (missingInNew origKeys newKeys))"

definition inconsistency_warning :: "string list \<Rightarrow> string list \<Rightarrow> bool" where
  "inconsistency_warning origKeys newKeys =
     (int (length (matchingKeys origKeys newKeys)) \<noteq> expectedMatches origKeys newKeys)"

text \<open>
  The rows handed to the CSV writer: the new column is set by row index. The writer takes
  the fields by header, so the place of the field in the row object (an object lists names
  that are array indices first) does not show in the file.
\<close>

definition extend_row :: "string \<Rightarrow> string list \<Rightarrow> nat \<Rightarrow> row \<Rightarrow> row" where
  "extend_row newLangName newLangValues index row =
     AList.update newLangName (if index < length newLangValues then newLangValues ! index else []) row"

definition extend_rows :: "string \<Rightarrow> string list \<Rightarrow> row list \<Rightarrow> row list" where
  "extend_rows newLangName newLangValues origRows =
     map (\<lambda>(index, row). extend_row newLangName newLangValues index row) (List.enumerate 0 origRows)"

datatype merge_error = FileNotFound | NoValidOriginal | NoValidNewLang | BadColumns

record merge_output =
  outputHeaders :: "string list"
  extendedRows :: "row list"
  logMatching :: "string list"
  logMissing :: "string list"
  logIgnored :: "string list"
  logWarning :: bool

text \<open>
  \<open>merge\<close>. A file argument is \<open>None\<close> when the file does not exist and otherwise the rows the
  CSV reader yields. \<open>fileLangName\<close> is the name the source derives from the file name, used
  only when the second header is the empty string.
\<close>

definition merge :: "string \<Rightarrow> row list option \<Rightarrow> row list option \<Rightarrow> merge_error + merge_output" where
  "merge fileLangName originalFile newLangFile =
     (case (originalFile, newLangFile) of
        (Some origParsed, Some newParsed) \<Rightarrow>
          (let orig = read_orig origParsed in
           case scan_rows orig of
             [] \<Rightarrow> Inl NoValidOriginal
           | origFirst # _ \<Rightarrow>
               (let new = read_new newParsed in
                case scan_rows new of
                  [] \<Rightarrow> Inl NoValidNewLang
                | newFirst # _ \<Rightarrow>
                    (case map fst newFirst of
                       [k, actualLangCol] \<Rightarrow>
                         if k \<noteq> ''Key'' then Inl BadColumns
                         else
                           (let newLangName = (if actualLangCol = [] then fileLangName else actualLangCol)
                            in Inr \<lparr>outputHeaders = map fst origFirst @ [newLangName],
                                    extendedRows = extend_rows newLangName (scan_values new) (scan_rows orig),
                                    logMatching = matchingKeys (scan_keys orig) (scan_keys new),
                                    logMissing = missingInNew (scan_keys orig) (scan_keys new),
                                    logIgnored = ignoredInNew (scan_keys orig) (scan_keys new),
                                    logWarning = inconsistency_warning (scan_keys orig) (scan_keys new)\<rparr>)
                     | _ \<Rightarrow> Inl BadColumns)))
      | _ \<Rightarrow> Inl FileNotFound)"

subsection \<open>The command line of the language utility\<close>

text \<open>
  A run ends with an exit status, the diagnostics printed and what was written. A function
  that returns after \<open>console.error\<close> lets the process end with status 0; \<open>process.exit(1)\<close>
  ends it with status 1. \<open>split\<close> does not test that its input file exists: opening a
  missing file is an \<open>error\<close> event on the read stream, which has no listener (\<open>reject\<close>
  listens on the parser the stream is piped into), so the runtime prints the error and ends
  the process with status 1. \<open>merge\<close> tests both files with \<open>existsSync\<close> first.
  \<open>argv\<close> is \<open>process.argv\<close> from index 2; \<open>files\<close> gives the parsed rows of each existing
  CSV file; \<open>langName\<close> is the language name the source derives from a file name.
\<close>

datatype diag = UsageError | SplitFailed split_error | MergeFailed merge_error | UnhandledStreamError

datatype written = SplitFiles "string list" "(string \<times> row list) list" | MergedFile merge_output

record outcome =
  exit_status :: nat
  diagnostics :: "diag list"
  written :: "written option"

definition arg :: "string list \<Rightarrow> nat \<Rightarrow> string option" where
  "arg argv i = (if i < length argv then Some (argv ! i) else None)"

definition falsy :: "string option \<Rightarrow> bool" where
  "falsy a = (a = None \<or> a = Some [])"

definition failed :: "nat \<Rightarrow> diag \<Rightarrow> outcome" where
  "failed status d = \<lparr>exit_status = status, diagnostics = [d], written = None\<rparr>"

definition langs_main :: "(string \<Rightarrow> string) \<Rightarrow> (string \<Rightarrow> row list option) \<Rightarrow> string list \<Rightarrow> outcome" where
  "langs_main langName files argv =
     (let mode = or_empty (arg argv 0) in
      if mode \<notin> set [''split'', ''merge''] then failed 1 UsageError
      else if mode = ''split'' then
        (let inputFile = arg argv 1; outputDir = arg argv 2 in
         if falsy inputFile \<or> falsy outputDir then failed 0 UsageError
         else
           (case files (or_empty inputFile) of
              None \<Rightarrow> failed 1 UnhandledStreamError
            | Some parsed \<Rightarrow>
                (case split parsed of
                   Inl e \<Rightarrow> failed 0 (SplitFailed e)
                 | Inr (headers, langFiles) \<Rightarrow>
                     \<lparr>exit_status = 0, diagnostics = [], written = Some (SplitFiles headers langFiles)\<rparr>)))
      else
        (let originalFile = arg argv 1; newLangFile = arg argv 2; outputFile = arg argv 3 in
         if falsy originalFile \<or> falsy newLangFile \<or> falsy outputFile then failed 0 UsageError
         else
           (case merge (langName (or_empty newLangFile)) (files (or_empty originalFile)) (files (or_empty newLangFile)) of
              Inl e \<Rightarrow> failed 0 (MergeFailed e)
            | Inr out \<Rightarrow> \<lparr>exit_status = 0, diagnostics = [], written = Some (MergedFile out)\<rparr>)))"

section \<open>The chunk utility: extract, update, update-all\<close>

subsection \<open>Chunk file names\<close>

definition chunkSize :: nat where
  "chunkSize = 100"

definition is_digit :: "char \<Rightarrow> bool" where
  "is_digit c = (48 \<le> (of_char c :: nat) \<and> (of_char c :: nat) \<le> 57)"

definition digit_char :: "nat \<Rightarrow> char" where
  "digit_char d = char_of (48 + d)"

definition digit_val :: "char \<Rightarrow> nat" where
  "digit_val c = of_char c - 48"

text \<open>The decimal text of a number, as a template literal prints it.\<close>

fun show_nat :: "nat \<Rightarrow> string" where
  "show_nat n = (if n < 10 then [digit_char n] else show_nat (n div 10) @ [digit_char (n mod 10)])"

declare show_nat.simps [simp del]

definition chunk_file_name :: "nat \<Rightarrow> string" where
  "chunk_file_name chunkIndex = ''data_'' @ show_nat chunkIndex @ ''.json''"

text \<open>
  \<open>parseInt\<close> on the digits \<open>\d+\<close> captured. Numbers are unbounded here; those of the source
  are doubles, which are exact below \<open>2^53\<close>, so the model is the source for the indices of
  files the export writes and for every index below that bound.
\<close>

definition parseInt :: "string \<Rightarrow> nat" where
  "parseInt ds = foldl (\<lambda>a c. 10 * a + digit_val c) 0 ds"

text \<open>
  \<open>name.match(/data_(\d+)\.json/)\<close>: the pattern is not anchored, so the leftmost place
  where it matches is taken. \<open>\d+\<close> is greedy and what follows it is not a digit, so at any
  one place the digits captured are the longest run.
\<close>

definition match_chunk_here :: "string \<Rightarrow> string option" where
  "match_chunk_here s =
     (if take 5 s = ''data_''
      then (let ds = takeWhile is_digit (drop 5 s); rest = dropWhile is_digit (drop 5 s)
            in if ds \<noteq> [] \<and> take 5 rest = ''.json'' then Some ds else None)
      else None)"

fun match_chunk :: "string \<Rightarrow> string option" where
  "match_chunk [] = None"
| "match_chunk (c # cs) =
     (case match_chunk_here (c # cs) of Some ds \<Rightarrow> Some ds | None \<Rightarrow> match_chunk cs)"

definition chunk_index :: "string \<Rightarrow> nat option" where
  "chunk_index name = map_option parseInt (match_chunk name)"

text \<open>\<open>path.basename\<close> for paths separated by \<open>/\<close>: trailing separators are ignored.\<close>

definition basename :: "string \<Rightarrow> string" where
  "basename p = rev (takeWhile (\<lambda>c. c \<noteq> CHR ''/'') (dropWhile (\<lambda>c. c = CHR ''/'') (rev p)))"

definition ends_with_json :: "string \<Rightarrow> bool" where
  "ends_with_json f = (5 \<le> length f \<and> drop (length f - 5) f = ''.json'')"

subsection \<open>Export\<close>

text \<open>\<open>row.English ? row.English : " "\<close>\<close>

definition export_value :: "row \<Rightarrow> string" where
  "export_value row = (case map_of row ''English'' of None \<Rightarrow> '' '' | Some s \<Rightarrow> if s = [] then '' '' else s)"

text \<open>
  The loop \<open>for (let i = 0; i < results.length; i += chunkSize)\<close> with its file counter; each
  step writes one file, given here as its name in the output directory and the array it
  holds. The chunk size is a parameter; the source fixes it at \<^const>\<open>chunkSize\<close>, and a size
  of 0, with which the loop would not advance, writes nothing here.
\<close>

function export_loop :: "nat \<Rightarrow> string list \<Rightarrow> nat \<Rightarrow> nat \<Rightarrow> (string \<times> string list) list" where
  "export_loop csize results i chunkIndex =
     (if i < length results \<and> 0 < csize
      then (chunk_file_name chunkIndex, take csize (drop i results))
             # export_loop csize results (i + csize) (chunkIndex + 1)
      else [])"
  by pat_completeness auto
termination
  by (relation "measure (\<lambda>(csize, results, i, chunkIndex). length results - i)") auto

declare export_loop.simps [simp del]

definition exportChunks :: "nat \<Rightarrow> row list \<Rightarrow> (string \<times> string list) list" where
  "exportChunks csize rows = export_loop csize (map export_value rows) 0 1"

definition extractEnglishToJson :: "row list \<Rightarrow> (string \<times> string list) list" where
  "extractEnglishToJson rows = exportChunks chunkSize rows"

text \<open>\<open>getCsvRows\<close>: every row the reader yields is pushed.\<close>

definition getCsvRows :: "row list \<Rightarrow> row list" where
  "getCsvRows parsed = foldl (\<lambda>rows row. rows @ [row]) [] parsed"

subsection \<open>Tokens\<close>

definition is_word :: "char \<Rightarrow> bool" where
  "is_word c = (is_digit c
      \<or> (65 \<le> (of_char c :: nat) \<and> (of_char c :: nat) \<le> 90)
      \<or> (97 \<le> (of_char c :: nat) \<and> (of_char c :: nat) \<le> 122)
      \<or> c = CHR ''_'')"

text \<open>
  A global regular expression is run from left to right: at each place the pattern is tried,
  a match is recorded and the search goes on behind it. A matcher returns what it records
  and the length of the text it matched.
\<close>

function scan_all :: "(string \<Rightarrow> ('a \<times> nat) option) \<Rightarrow> string \<Rightarrow> 'a list" where
  "scan_all m [] = []"
| "scan_all m (c # cs) =
     (case m (c # cs) of
        None \<Rightarrow> scan_all m cs
      | Some (x, len) \<Rightarrow> x # scan_all m (drop (len - 1) cs))"
  by pat_completeness auto
termination
  by (relation "measure (\<lambda>(m, s). length s)") auto

text \<open>\<open>/\{(\w+)\}/\<close> at the start of a string; the group is recorded.\<close>

definition match_var_here :: "string \<Rightarrow> (string \<times> nat) option" where
  "match_var_here s =
     (case s of
        [] \<Rightarrow> None
      | c # t \<Rightarrow>
          if c = CHR ''{''
          then (let w = takeWhile is_word t
                in if w \<noteq> [] \<and> take 1 (dropWhile is_word t) = ''}'' then Some (w, length w + 2) else None)
          else None)"

text \<open>\<open>/<[^=]+=(\w+)>/\<close> at the start of a string; the group is recorded.\<close>

definition match_attr_here :: "string \<Rightarrow> (string \<times> nat) option" where
  "match_attr_here s =
     (case s of
        [] \<Rightarrow> None
      | c # t \<Rightarrow>
          if c = CHR ''<''
          then (let k = takeWhile (\<lambda>d. d \<noteq> CHR ''='') t;
                    u = drop 1 (dropWhile (\<lambda>d. d \<noteq> CHR ''='') t);
                    w = takeWhile is_word u
                in if k \<noteq> [] \<and> take 1 (dropWhile (\<lambda>d. d \<noteq> CHR ''='') t) = ''=''
                      \<and> w \<noteq> [] \<and> take 1 (dropWhile is_word u) = ''>''
                   then Some (w, length k + length w + 3) else None)
          else None)"

text \<open>\<open>/<[^>]+>/\<close> at the start of a string; the whole match is recorded.\<close>

definition match_tag_here :: "string \<Rightarrow> (string \<times> nat) option" where
  "match_tag_here s =
     (case s of
        [] \<Rightarrow> None
      | c # t \<Rightarrow>
          if c = CHR ''<''
          then (let b = takeWhile (\<lambda>d. d \<noteq> CHR ''>'') t
                in if b \<noteq> [] \<and> take 1 (dropWhile (\<lambda>d. d \<noteq> CHR ''>'') t) = ''>''
                   then Some (CHR ''<'' # b @ ''>'', length b + 2) else None)
          else None)"

definition extractPlaceholders :: "string \<Rightarrow> string list" where
  "extractPlaceholders v =
     foldl set_add (foldl set_add [] (scan_all match_var_here v)) (scan_all match_attr_here v)"

definition dollarCount :: "string \<Rightarrow> nat" where
  "dollarCount v = length (filter (\<lambda>c. c = CHR ''$'') v)"

definition extractTags :: "string \<Rightarrow> string list" where
  "extractTags v = scan_all match_tag_here v"

text \<open>
  What the placeholder set is said to hold, in the words of the specification rather than as
  a scan: the identifiers that occur in the text as \<open>{identifier}\<close>, and the values of the
  tags \<open><key=value>\<close> whose value is an identifier; a tag is \<open><\<close>, a text without \<open>>\<close>, and
  \<open>>\<close>, so the key of a tag has neither \<open>=\<close> nor \<open>>\<close>. \<open>spec_tag_value\<close> reads a whole tag
  as \<open><key=value>\<close>: its value is what stands between the first \<open>=\<close> and the closing \<open>>\<close>,
  whatever characters it has. \<open>overrun_values\<close> are the values of the matches that are not
  one tag: the text between \<open><\<close> and \<open>=\<close> has a \<open>>\<close>.
\<close>

definition brace_identifiers :: "string \<Rightarrow> string set" where
  "brace_identifiers s =
     {w. w \<noteq> [] \<and> list_all is_word w \<and> (\<exists>pre post. s = pre @ ''{'' @ w @ ''}'' @ post)}"

definition tag_attribute_values :: "string \<Rightarrow> string set" where
  "tag_attribute_values s =
     {v. v \<noteq> [] \<and> list_all is_word v
         \<and> (\<exists>pre key post. key \<noteq> [] \<and> CHR ''='' \<notin> set key \<and> CHR ''>'' \<notin> set key
                \<and> s = pre @ ''<'' @ key @ ''='' @ v @ ''>'' @ post)}"

definition overrun_values :: "string \<Rightarrow> string set" where
  "overrun_values s =
     {v. v \<noteq> [] \<and> list_all is_word v
         \<and> (\<exists>pre key post. key \<noteq> [] \<and> CHR ''='' \<notin> set key \<and> CHR ''>'' \<in> set key
                \<and> s = pre @ ''<'' @ key @ ''='' @ v @ ''>'' @ post)}"

definition spec_tag_value :: "string \<Rightarrow> string option" where
  "spec_tag_value t =
     (case t of
        [] \<Rightarrow> None
      | c # r \<Rightarrow>
          (let key = takeWhile (\<lambda>d. d \<noteq> CHR ''='') r; rest = dropWhile (\<lambda>d. d \<noteq> CHR ''='') r
           in if c = CHR ''<'' \<and> key \<noteq> [] \<and> 2 \<le> length rest \<and> last rest = CHR ''>''
              then Some (butlast (tl rest)) else None))"

subsection \<open>Comparing an original value with its translation\<close>

text \<open>
  An entry of \<open>valueErrors\<close>: the row number, the row's \<open>Key\<close> and what differs. The three
  checks are made for every pair, in this order.
\<close>

datatype mismatch =
    PlaceholderMismatch nat "string option" "string list" "string list"
  | SymbolCountMismatch nat "string option" nat nat
  | TagMismatch nat "string option" "string list" "string list"

definition compare :: "nat \<Rightarrow> string option \<Rightarrow> string \<Rightarrow> string \<Rightarrow> mismatch list" where
  "compare rowNo key originalValue transValue =
     (let origPlaceholders = extractPlaceholders originalValue;
          transPlaceholders = extractPlaceholders transValue;
          origDollarCount = dollarCount originalValue;
          transDollarCount = dollarCount transValue;
          origTags = extractTags originalValue;
          transTags = extractTags transValue
      in (if length origPlaceholders \<noteq> length transPlaceholders
             \<or> \<not> list_all (\<lambda>ph. ph \<in> set transPlaceholders) origPlaceholders
          then [PlaceholderMismatch rowNo key
                  (filter (\<lambda>ph. ph \<notin> set transPlaceholders) origPlaceholders)
                  (filter (\<lambda>ph. ph \<notin> set origPlaceholders) transPlaceholders)]
          else [])
       @ (if origDollarCount \<noteq> transDollarCount
          then [SymbolCountMismatch rowNo key origDollarCount transDollarCount]
          else [])
       @ (if length origTags \<noteq> length transTags
             \<or> \<not> list_all (\<lambda>index. origTags ! index = transTags ! index) [0..<length origTags]
          then [TagMismatch rowNo key origTags transTags]
          else []))"

fun mismatch_row :: "mismatch \<Rightarrow> nat" where
  "mismatch_row (PlaceholderMismatch rowNo key missing extra) = rowNo"
| "mismatch_row (SymbolCountMismatch rowNo key origCount transCount) = rowNo"
| "mismatch_row (TagMismatch rowNo key origTags transTags) = rowNo"

definition check_pair :: "row list \<Rightarrow> nat \<Rightarrow> string \<Rightarrow> mismatch list" where
  "check_pair originalRows idx transValue =
     compare (idx + 1) (map_of (originalRows ! idx) ''Key'')
       (or_empty (map_of (originalRows ! idx) ''English'')) transValue"

subsection \<open>Applying one chunk\<close>

datatype update_error =
    InvalidFilename
  | LengthMismatch nat int
  | RowCountMismatch nat nat
  | ValueErrors "mismatch list"
  | Exception

text \<open>
  The validation loop over the chunk, from row index \<open>idx\<close>. Reading a field of a row that
  does not exist throws, which ends the run in the \<open>catch\<close>: the result is \<open>None\<close>.
\<close>

fun validate_chunk :: "row list \<Rightarrow> int \<Rightarrow> string list \<Rightarrow> mismatch list option" where
  "validate_chunk originalRows idx [] = Some []"
| "validate_chunk originalRows idx (transValue # rest) =
     (if 0 \<le> idx \<and> idx < int (length originalRows)
      then map_option (\<lambda>errs. check_pair originalRows (nat idx) transValue @ errs)
             (validate_chunk originalRows (idx + 1) rest)
      else None)"

text \<open>The update loop; it runs only after the validation loop went over the same indices.\<close>

fun apply_chunk :: "row list \<Rightarrow> nat \<Rightarrow> string list \<Rightarrow> row list" where
  "apply_chunk originalRows idx [] = originalRows"
| "apply_chunk originalRows idx (transValue # rest) =
     apply_chunk (originalRows[idx := AList.update ''English'' transValue (originalRows ! idx)])
       (idx + 1) rest"

text \<open>
  \<open>updateCsvWithTranslation\<close>, from the rows the CSV reader yields and the array parsed
  from the chunk file; the source reads both before it tests the name. \<open>Inl\<close> is a run
  ended by \<open>process.exit(1)\<close>, with nothing written; \<open>Inr\<close> holds the rows written to the
  output file.
\<close>

definition updateCsvWithTranslation :: "row list \<Rightarrow> string \<Rightarrow> string list \<Rightarrow> update_error + row list" where
  "updateCsvWithTranslation parsed translationFile translations =
     (case chunk_index (basename translationFile) of
        None \<Rightarrow> Inl InvalidFilename
      | Some chunkIndex \<Rightarrow>
          (let originalRows = getCsvRows parsed;
               startIndex = (int chunkIndex - 1) * int chunkSize;
               expectedLength = min (int chunkSize) (int (length originalRows) - startIndex)
           in if int (length translations) \<noteq> expectedLength
              then Inl (LengthMismatch (length translations) expectedLength)
              else
                (case validate_chunk originalRows startIndex translations of
                   None \<Rightarrow> Inl Exception
                 | Some valueErrors \<Rightarrow>
                     if valueErrors \<noteq> [] then Inl (ValueErrors valueErrors)
                     else Inr (apply_chunk originalRows (nat startIndex) translations))))"

subsection \<open>Applying all chunks\<close>

text \<open>
  The output directory is the list \<open>readdirSync\<close> returns, each name with the array its file
  holds (\<open>None\<close> when the file does not parse). Sorting calls the comparison, which throws on
  a name the pattern does not match, only when there are two names or more; the sort is
  stable.
\<close>

definition index_key :: "string \<times> 'a \<Rightarrow> nat" where
  "index_key = (\<lambda>(f, c). case chunk_index f of Some i \<Rightarrow> i | None \<Rightarrow> 0)"

definition sort_files :: "(string \<times> 'a) list \<Rightarrow> (string \<times> 'a) list option" where
  "sort_files fs =
     (if length fs \<le> 1 then Some fs
      else if list_all (\<lambda>(f, c). chunk_index f \<noteq> None) fs
      then Some (sort_key index_key fs)
      else None)"

fun read_all :: "(string \<times> string list option) list \<Rightarrow> string list option" where
  "read_all [] = Some []"
| "read_all ((f, None) # rest) = None"
| "read_all ((f, Some translations) # rest) = map_option (\<lambda>allTranslations. translations @ allTranslations) (read_all rest)"

definition importAll :: "(string \<times> string list option) list \<Rightarrow> string list option" where
  "importAll dir =
     (case sort_files (filter (\<lambda>(f, c). ends_with_json f) dir) of
        None \<Rightarrow> None
      | Some jsonFiles \<Rightarrow> read_all jsonFiles)"

definition validate_all :: "row list \<Rightarrow> string list \<Rightarrow> mismatch list" where
  "validate_all originalRows allTranslations =
     concat (map (\<lambda>i. check_pair originalRows i (allTranslations ! i)) [0..<length originalRows])"

definition apply_all :: "row list \<Rightarrow> string list \<Rightarrow> row list" where
  "apply_all originalRows allTranslations =
     map (\<lambda>(i, row). AList.update ''English'' (allTranslations ! i) row) (List.enumerate 0 originalRows)"

definition updateCsvWithAllTranslations ::
    "row list \<Rightarrow> (string \<times> string list option) list \<Rightarrow> update_error + row list" where
  "updateCsvWithAllTranslations parsed dir =
     (let originalRows = getCsvRows parsed in
      case importAll dir of
        None \<Rightarrow> Inl Exception
      | Some allTranslations \<Rightarrow>
          if length originalRows \<noteq> length allTranslations
          then Inl (RowCountMismatch (length originalRows) (length allTranslations))
          else
            (let valueErrors = validate_all originalRows allTranslations
             in if valueErrors \<noteq> [] then Inl (ValueErrors valueErrors)
                else Inr (apply_all originalRows allTranslations)))"

section \<open>Properties of the language utility\<close>

subsection \<open>The readers\<close>

lemma foldl_set_add_distinct: "distinct (acc @ xs) \<Longrightarrow> foldl set_add acc xs = acc @ xs"
  by (induction xs arbitrary: acc) (auto simp add: set_add_def)

lemma new_Set_distinct: "distinct xs \<Longrightarrow> new_Set xs = xs"
  by (simp add: new_Set_def foldl_set_add_distinct)

lemma set_foldl_set_add: "set (foldl set_add acc xs) = set acc \<union> set xs"
  by (induction xs arbitrary: acc) (auto simp add: set_add_def)

lemma distinct_foldl_set_add: "distinct acc \<Longrightarrow> distinct (foldl set_add acc xs)"
  by (induction xs arbitrary: acc) (auto simp add: set_add_def)

lemma note_key_rows: "scan_rows (note_key k st) = scan_rows st"
  by (simp add: note_key_def)

lemma note_key_values: "scan_values (note_key k st) = scan_values st"
  by (simp add: note_key_def)

lemma note_key_keys: "scan_keys (note_key k st) = set_add (scan_keys st) k"
  by (simp add: note_key_def set_add_def)

lemma orig_scan_rows: "scan_rows (foldl on_orig_row st rs) = scan_rows st @ filter key_ok rs"
  by (induction rs arbitrary: st) (simp_all add: on_orig_row_def note_key_rows)

lemma new_scan_rows: "scan_rows (foldl on_new_row st rs) = scan_rows st @ filter key_ok rs"
  by (induction rs arbitrary: st) (simp_all add: on_new_row_def note_key_rows)

lemma new_scan_values:
  "scan_values (foldl on_new_row st rs) = scan_values st @ map second_value (filter key_ok rs)"
  by (induction rs arbitrary: st) (simp_all add: on_new_row_def note_key_values)

lemma orig_scan_keys:
  "scan_keys (foldl on_orig_row st rs) = foldl set_add (scan_keys st) (map (\<lambda>r. trim (row_key r)) (filter key_ok rs))"
  by (induction rs arbitrary: st) (simp_all add: on_orig_row_def note_key_keys)

lemma new_scan_keys:
  "scan_keys (foldl on_new_row st rs) = foldl set_add (scan_keys st) (map (\<lambda>r. trim (row_key r)) (filter key_ok rs))"
  by (induction rs arbitrary: st) (simp_all add: on_new_row_def note_key_keys)

lemma read_orig_rows: "scan_rows (read_orig parsed) = filter key_ok parsed"
  by (simp add: read_orig_def orig_scan_rows empty_scan_def)

lemma read_new_rows: "scan_rows (read_new parsed) = filter key_ok parsed"
  by (simp add: read_new_def new_scan_rows empty_scan_def)

lemma read_new_values: "scan_values (read_new parsed) = map second_value (filter key_ok parsed)"
  by (simp add: read_new_def new_scan_values empty_scan_def)

lemma read_orig_keys: "scan_keys (read_orig parsed) = new_Set (map (\<lambda>r. trim (row_key r)) (filter key_ok parsed))"
  by (simp add: read_orig_def orig_scan_keys empty_scan_def new_Set_def)

lemma read_new_keys: "scan_keys (read_new parsed) = new_Set (map (\<lambda>r. trim (row_key r)) (filter key_ok parsed))"
  by (simp add: read_new_def new_scan_keys empty_scan_def new_Set_def)

lemma distinct_new_Set: "distinct (new_Set xs)"
  by (simp add: new_Set_def distinct_foldl_set_add)

lemma set_new_Set: "set (new_Set xs) = set xs"
  by (simp add: new_Set_def set_foldl_set_add)

lemma split_rows_filter: "split_rows parsed = filter key_ok parsed"
proof -
  have "foldl split_on_row acc parsed = acc @ filter key_ok parsed" for acc
    by (induction parsed arbitrary: acc) (simp_all add: split_on_row_def)
  then show ?thesis by (simp add: split_rows_def)
qed

lemma getCsvRows_all: "getCsvRows parsed = parsed"
proof -
  have "foldl (\<lambda>rows row. rows @ [row]) acc parsed = acc @ parsed" for acc :: "row list"
    by (induction parsed arbitrary: acc) simp_all
  then show ?thesis by (simp add: getCsvRows_def)
qed

lemma key_sets_distinct:
  "distinct ok \<Longrightarrow> matchingKeys ok nk = filter (\<lambda>key. key \<in> set nk) ok \<and> missingInNew ok nk = filter (\<lambda>key. key \<notin> set nk) ok"
  by (simp add: matchingKeys_def missingInNew_def new_Set_distinct)

subsection \<open>Key reconciliation\<close>

lemma orig_keys_eq: "orig_keys parsed = new_Set (map (\<lambda>r. trim (row_key r)) (filter key_ok parsed))"
  by (simp add: orig_keys_def read_orig_keys)

lemma new_keys_eq: "new_keys parsed = new_Set (map (\<lambda>r. trim (row_key r)) (filter key_ok parsed))"
  by (simp add: new_keys_def read_new_keys)

text \<open>
  Claim C5. The key sets of the two files are the distinct trimmed keys of their retained
  rows, and \<open>merge\<close> computes from them three duplicate-free sets: the matching keys are the
  intersection, the keys missing in the new file are the primary keys without the secondary
  ones, the ignored keys are the secondary keys without the primary ones. For the keys
  A, B, C and B, C, D these are B, C, then A, then D.
\<close>

theorem key_reconciler_sets:
  "set (orig_keys primary) = (\<lambda>r. trim (row_key r)) ` {r \<in> set primary. key_ok r}
   \<and> set (new_keys secondary) = (\<lambda>r. trim (row_key r)) ` {r \<in> set secondary. key_ok r}
   \<and> distinct (matchingKeys (orig_keys primary) (new_keys secondary))
   \<and> distinct (missingInNew (orig_keys primary) (new_keys secondary))
   \<and> distinct (ignoredInNew (orig_keys primary) (new_keys secondary))
   \<and> set (matchingKeys (orig_keys primary) (new_keys secondary)) = set (orig_keys primary) \<inter> set (new_keys secondary)
   \<and> set (missingInNew (orig_keys primary) (new_keys secondary)) = set (orig_keys primary) - set (new_keys secondary)
   \<and> set (ignoredInNew (orig_keys primary) (new_keys secondary)) = set (new_keys secondary) - set (orig_keys primary)
   \<and> matchingKeys [''A'', ''B'', ''C''] [''B'', ''C'', ''D''] = [''B'', ''C'']
   \<and> missingInNew [''A'', ''B'', ''C''] [''B'', ''C'', ''D''] = [''A'']
   \<and> ignoredInNew [''A'', ''B'', ''C''] [''B'', ''C'', ''D''] = [''D'']"
proof -
  have "matchingKeys [''A'', ''B'', ''C''] [''B'', ''C'', ''D''] = [''B'', ''C'']"
    and "missingInNew [''A'', ''B'', ''C''] [''B'', ''C'', ''D''] = [''A'']"
    and "ignoredInNew [''A'', ''B'', ''C''] [''B'', ''C'', ''D''] = [''D'']"
    by (simp_all add: matchingKeys_def missingInNew_def ignoredInNew_def new_Set_def set_add_def)
  then show ?thesis
    by (auto simp add: orig_keys_eq new_keys_eq set_new_Set distinct_new_Set
          matchingKeys_def missingInNew_def ignoredInNew_def)
qed

theorem key_reconciler_sets_witness:
  "matchingKeys (orig_keys [[(''Key'', ''A''), (''English'', ''a'')], [(''Key'', '' B''), (''English'', ''b'')], [(''Key'', ''C ''), (''English'', ''c'')]])
     (new_keys [[(''Key'', ''B''), (''Indonesia'', ''x'')], [(''Key'', ''C''), (''Indonesia'', ''y'')], [(''Key'', ''D''), (''Indonesia'', ''z'')]]) = [''B'', ''C'']
   \<and> missingInNew (orig_keys [[(''Key'', ''A''), (''English'', ''a'')], [(''Key'', '' B''), (''English'', ''b'')], [(''Key'', ''C ''), (''English'', ''c'')]])
     (new_keys [[(''Key'', ''B''), (''Indonesia'', ''x'')], [(''Key'', ''C''), (''Indonesia'', ''y'')], [(''Key'', ''D''), (''Indonesia'', ''z'')]]) = [''A'']
   \<and> ignoredInNew (orig_keys [[(''Key'', ''A''), (''English'', ''a'')], [(''Key'', '' B''), (''English'', ''b'')], [(''Key'', ''C ''), (''English'', ''c'')]])
     (new_keys [[(''Key'', ''B''), (''Indonesia'', ''x'')], [(''Key'', ''C''), (''Indonesia'', ''y'')], [(''Key'', ''D''), (''Indonesia'', ''z'')]]) = [''D'']
   \<and> set (matchingKeys (orig_keys [[(''Key'', ''A''), (''English'', ''a'')], [(''Key'', '' B''), (''English'', ''b'')], [(''Key'', ''C ''), (''English'', ''c'')]])
     (new_keys [[(''Key'', ''B''), (''Indonesia'', ''x'')], [(''Key'', ''C''), (''Indonesia'', ''y'')], [(''Key'', ''D''), (''Indonesia'', ''z'')]]))
     = set (orig_keys [[(''Key'', ''A''), (''English'', ''a'')], [(''Key'', '' B''), (''English'', ''b'')], [(''Key'', ''C ''), (''English'', ''c'')]])
       \<inter> set (new_keys [[(''Key'', ''B''), (''Indonesia'', ''x'')], [(''Key'', ''C''), (''Indonesia'', ''y'')], [(''Key'', ''D''), (''Indonesia'', ''z'')]])"
proof -
  have "matchingKeys (orig_keys [[(''Key'', ''A''), (''English'', ''a'')], [(''Key'', '' B''), (''English'', ''b'')], [(''Key'', ''C ''), (''English'', ''c'')]])
     (new_keys [[(''Key'', ''B''), (''Indonesia'', ''x'')], [(''Key'', ''C''), (''Indonesia'', ''y'')], [(''Key'', ''D''), (''Indonesia'', ''z'')]]) = [''B'', ''C'']"
    by code_simp
  moreover have "missingInNew (orig_keys [[(''Key'', ''A''), (''English'', ''a'')], [(''Key'', '' B''), (''English'', ''b'')], [(''Key'', ''C ''), (''English'', ''c'')]])
     (new_keys [[(''Key'', ''B''), (''Indonesia'', ''x'')], [(''Key'', ''C''), (''Indonesia'', ''y'')], [(''Key'', ''D''), (''Indonesia'', ''z'')]]) = [''A'']"
    by code_simp
  moreover have "ignoredInNew (orig_keys [[(''Key'', ''A''), (''English'', ''a'')], [(''Key'', '' B''), (''English'', ''b'')], [(''Key'', ''C ''), (''English'', ''c'')]])
     (new_keys [[(''Key'', ''B''), (''Indonesia'', ''x'')], [(''Key'', ''C''), (''Indonesia'', ''y'')], [(''Key'', ''D''), (''Indonesia'', ''z'')]]) = [''D'']"
    by code_simp
  moreover have "set (matchingKeys (orig_keys [[(''Key'', ''A''), (''English'', ''a'')], [(''Key'', '' B''), (''English'', ''b'')], [(''Key'', ''C ''), (''English'', ''c'')]])
     (new_keys [[(''Key'', ''B''), (''Indonesia'', ''x'')], [(''Key'', ''C''), (''Indonesia'', ''y'')], [(''Key'', ''D''), (''Indonesia'', ''z'')]]))
     = set (orig_keys [[(''Key'', ''A''), (''English'', ''a'')], [(''Key'', '' B''), (''English'', ''b'')], [(''Key'', ''C ''), (''English'', ''c'')]])
       \<inter> set (new_keys [[(''Key'', ''B''), (''Indonesia'', ''x'')], [(''Key'', ''C''), (''Indonesia'', ''y'')], [(''Key'', ''D''), (''Indonesia'', ''z'')]])"
    using key_reconciler_sets [of "[[(''Key'', ''A''), (''English'', ''a'')], [(''Key'', '' B''), (''English'', ''b'')], [(''Key'', ''C ''), (''English'', ''c'')]]"
       "[[(''Key'', ''B''), (''Indonesia'', ''x'')], [(''Key'', ''C''), (''Indonesia'', ''y'')], [(''Key'', ''D''), (''Indonesia'', ''z'')]]"]
    by blast
  ultimately show ?thesis by blast
qed

text \<open>
  Claim C10. The number of matching keys is the number of primary keys minus the number
  of keys missing in the new file, so the test of the consistency warning is never true and no
  merge that succeeds has warned.
\<close>

theorem consistency_warning_unreachable:
  "int (length (matchingKeys (orig_keys primary) (new_keys secondary)))
     = int (length (orig_keys primary)) - int (length (missingInNew (orig_keys primary) (new_keys secondary)))
   \<and> \<not> inconsistency_warning (orig_keys primary) (new_keys secondary)
   \<and> (\<forall>out. merge fileLangName (Some primary) (Some secondary) = Inr out \<longrightarrow> \<not> logWarning out)"
proof -
  let ?ok = "orig_keys primary" and ?nk = "new_keys secondary"
  have d: "distinct ?ok" by (simp add: orig_keys_eq distinct_new_Set)
  have "length (filter (\<lambda>key. key \<in> set ?nk) ?ok) + length (filter (\<lambda>key. key \<notin> set ?nk) ?ok) = length ?ok"
    by (rule sum_length_filter_compl)
  with key_sets_distinct [OF d, of ?nk]
  have eq: "int (length (matchingKeys ?ok ?nk)) = int (length ?ok) - int (length (missingInNew ?ok ?nk))"
    by simp
  then have w: "\<not> inconsistency_warning ?ok ?nk"
    by (simp add: inconsistency_warning_def expectedMatches_def)
  have "\<not> logWarning out" if "merge fileLangName (Some primary) (Some secondary) = Inr out" for out
    using that w by (auto simp add: merge_def Let_def orig_keys_def new_keys_def split: list.splits if_splits)
  with eq w show ?thesis by blast
qed

theorem consistency_warning_unreachable_witness:
  "(case merge ''Indonesia'' (Some [[(''Key'', ''A''), (''English'', ''a'')], [(''Key'', '' B''), (''English'', ''b'')], [(''Key'', ''C ''), (''English'', ''c'')]])
           (Some [[(''Key'', ''B''), (''Indonesia'', ''x'')], [(''Key'', ''C''), (''Indonesia'', ''y'')], [(''Key'', ''D''), (''Indonesia'', ''z'')]]) of
      Inl e \<Rightarrow> False
    | Inr out \<Rightarrow> \<not> logWarning out \<and> logMatching out = [''B'', ''C''] \<and> logMissing out = [''A''])"
proof -
  have "(case merge ''Indonesia'' (Some [[(''Key'', ''A''), (''English'', ''a'')], [(''Key'', '' B''), (''English'', ''b'')], [(''Key'', ''C ''), (''English'', ''c'')]])
           (Some [[(''Key'', ''B''), (''Indonesia'', ''x'')], [(''Key'', ''C''), (''Indonesia'', ''y'')], [(''Key'', ''D''), (''Indonesia'', ''z'')]]) of
      Inl e \<Rightarrow> False
    | Inr out \<Rightarrow> logMatching out = [''B'', ''C''] \<and> logMissing out = [''A''])"
    by code_simp
  then show ?thesis
    using consistency_warning_unreachable [of "[[(''Key'', ''A''), (''English'', ''a'')], [(''Key'', '' B''), (''English'', ''b'')], [(''Key'', ''C ''), (''English'', ''c'')]]"
       "[[(''Key'', ''B''), (''Indonesia'', ''x'')], [(''Key'', ''C''), (''Indonesia'', ''y'')], [(''Key'', ''D''), (''Indonesia'', ''z'')]]" "''Indonesia''"]
    by (auto split: sum.splits)
qed

subsection \<open>Positional merge\<close>

lemma update_fresh: "name \<notin> fst ` set row \<Longrightarrow> AList.update name v row = row @ [(name, v)]"
  by (induction row) auto

lemma extend_rows_length: "length (extend_rows name vs rows) = length rows"
  by (simp add: extend_rows_def)

lemma extend_rows_nth:
  "i < length rows \<Longrightarrow> extend_rows name vs rows ! i = extend_row name vs i (rows ! i)"
  by (simp add: extend_rows_def nth_enumerate_eq)

lemma merge_rows_shape:
  assumes "merge fileLangName (Some primary) (Some secondary) = Inr out"
  shows "\<exists>name hs. outputHeaders out = hs @ [name]
           \<and> extendedRows out
               = extend_rows name (map second_value (filter key_ok secondary)) (filter key_ok primary)"
proof -
  obtain p ps where p: "scan_rows (read_orig primary) = p # ps"
    using assms by (auto simp add: merge_def Let_def split: list.splits)
  obtain n ns where n: "scan_rows (read_new secondary) = n # ns"
    using assms p by (auto simp add: merge_def Let_def split: list.splits)
  obtain c where c: "map fst n = [''Key'', c]"
    using assms p n by (auto simp add: merge_def Let_def split: list.splits if_splits)
  have "extendedRows out
          = extend_rows (if c = [] then fileLangName else c) (scan_values (read_new secondary))
              (scan_rows (read_orig primary))"
    and "outputHeaders out = map fst p @ [if c = [] then fileLangName else c]"
    using assms p n c by (auto simp add: merge_def Let_def)
  then show ?thesis
    by (metis read_orig_rows read_new_values)
qed

lemma merge_rows_positional:
  assumes "merge fileLangName (Some primary) (Some secondary) = Inr out"
  shows "length (extendedRows out) = length (filter key_ok primary)"
    and "i < length (filter key_ok primary) \<Longrightarrow>
           extendedRows out ! i =
             AList.update (last (outputHeaders out))
               (if i < length (filter key_ok secondary) then second_value (filter key_ok secondary ! i) else [])
               (filter key_ok primary ! i)"
proof -
  obtain name hs where h: "outputHeaders out = hs @ [name]"
    and r: "extendedRows out
              = extend_rows name (map second_value (filter key_ok secondary)) (filter key_ok primary)"
    using merge_rows_shape [OF assms] by blast
  show "length (extendedRows out) = length (filter key_ok primary)"
    by (simp add: r extend_rows_length)
  show "extendedRows out ! i =
             AList.update (last (outputHeaders out))
               (if i < length (filter key_ok secondary) then second_value (filter key_ok secondary ! i) else [])
               (filter key_ok primary ! i)" if "i < length (filter key_ok primary)"
    using that by (simp add: r h extend_rows_nth extend_row_def)
qed

text \<open>
  Claim C1. The value of the new column is taken by row index, as \<open>merge_rows_positional\<close>
  shows, and the new field is the last one of the row when the primary row has no column of
  that name (\<open>update_fresh\<close>). When the primary file already has a column of the new
  column's name, as a file that \<open>split\<close> produced has against its own master, the row is not
  extended: the existing value is replaced, while the header list still gets the name a
  second time.
\<close>

theorem merge_overwrites_existing_column:
  "(case merge ''English'' (Some [[(''Key'', ''K1''), (''English'', ''Hello'')]])
                           (Some [[(''Key'', ''K1''), (''English'', ''Halo'')]]) of
      Inl e \<Rightarrow> False
    | Inr out \<Rightarrow>
        outputHeaders out = [''Key'', ''English'', ''English'']
        \<and> extendedRows out = [[(''Key'', ''K1''), (''English'', ''Halo'')]]
        \<and> extendedRows out ! 0 \<noteq> [(''Key'', ''K1''), (''English'', ''Hello'')] @ [(''English'', ''Halo'')])"
  by code_simp

subsection \<open>Exit status\<close>

text \<open>
  Claim C4. A split of a file without a usable row, a merge with a file that does not exist
  and a merge with a new-language file of three columns each print a diagnostic, write
  nothing and end with exit status 0, where a missing or unknown mode ends with status 1.
\<close>

theorem failures_exit_with_status_zero:
  "langs_main (\<lambda>p. ''Lang'')
      (\<lambda>p. if p = ''in.csv'' then Some [[(''Key'', ''  ''), (''English'', ''Hello'')]] else None)
      [''split'', ''in.csv'', ''out'']
     = \<lparr>exit_status = 0, diagnostics = [SplitFailed SplitNoValidData], written = None\<rparr>
   \<and> langs_main (\<lambda>p. ''Lang'')
      (\<lambda>p. if p = ''master.csv'' then Some [[(''Key'', ''K1''), (''English'', ''Hello'')]] else None)
      [''merge'', ''master.csv'', ''absent.csv'', ''out.csv'']
     = \<lparr>exit_status = 0, diagnostics = [MergeFailed FileNotFound], written = None\<rparr>
   \<and> langs_main (\<lambda>p. ''Lang'')
      (\<lambda>p. if p = ''master.csv'' then Some [[(''Key'', ''K1''), (''English'', ''Hello'')]]
           else if p = ''id.csv'' then Some [[(''Key'', ''K1''), (''Indonesia'', ''Halo''), (''Note'', ''x'')]]
           else None)
      [''merge'', ''master.csv'', ''id.csv'', ''out.csv'']
     = \<lparr>exit_status = 0, diagnostics = [MergeFailed BadColumns], written = None\<rparr>
   \<and> langs_main (\<lambda>p. ''Lang'') (\<lambda>p. None) [''check'']
     = \<lparr>exit_status = 1, diagnostics = [UsageError], written = None\<rparr>"
  by code_simp

section \<open>Properties of the chunk utility\<close>

subsection \<open>Comparing a value with itself\<close>

text \<open>
  Claim C6. Comparing a string with itself yields no mismatch: its placeholder set, its
  count of dollar signs and its sequence of tags are equal to themselves.
\<close>

theorem compare_reflexive: "compare rowNo key t t = []"
  by (simp add: compare_def Let_def list_all_iff)

theorem compare_reflexive_witness:
  "compare 3 (Some ''greeting'') ''Hi {name}, pay $5 <color=red>now</color>''
                                 ''Hi {name}, pay $5 <color=red>now</color>'' = []
   \<and> extractPlaceholders ''Hi {name}, pay $5 <color=red>now</color>'' = [''name'', ''red'']
   \<and> dollarCount ''Hi {name}, pay $5 <color=red>now</color>'' = 1
   \<and> extractTags ''Hi {name}, pay $5 <color=red>now</color>'' = [''<color=red>'', ''</color>'']"
proof -
  have "extractPlaceholders ''Hi {name}, pay $5 <color=red>now</color>'' = [''name'', ''red'']"
    by code_simp
  moreover have "dollarCount ''Hi {name}, pay $5 <color=red>now</color>'' = 1"
    by code_simp
  moreover have "extractTags ''Hi {name}, pay $5 <color=red>now</color>'' = [''<color=red>'', ''</color>'']"
    by code_simp
  ultimately show ?thesis
    using compare_reflexive [of 3 "Some ''greeting''" "''Hi {name}, pay $5 <color=red>now</color>''"]
    by simp
qed

subsection \<open>Chunk file names\<close>

lemma digit_char_digit: "d < 10 \<Longrightarrow> is_digit (digit_char d) \<and> digit_val (digit_char d) = d"
  by (simp add: is_digit_def digit_char_def digit_val_def)

lemma show_nat_digits: "list_all is_digit (show_nat n) \<and> show_nat n \<noteq> []"
proof (induction n rule: show_nat.induct)
  case (1 n)
  show ?case
  proof (cases "n < 10")
    case True
    then show ?thesis by (simp add: show_nat.simps [of n] digit_char_digit)
  next
    case False
    with 1 show ?thesis by (simp add: show_nat.simps [of n] digit_char_digit)
  qed
qed

lemma parseInt_snoc: "parseInt (ds @ [c]) = 10 * parseInt ds + digit_val c"
  by (simp add: parseInt_def)

lemma parseInt_show_nat: "parseInt (show_nat n) = n"
proof (induction n rule: show_nat.induct)
  case (1 n)
  show ?case
  proof (cases "n < 10")
    case True
    then show ?thesis by (simp add: show_nat.simps [of n] parseInt_def digit_char_digit)
  next
    case False
    with 1 show ?thesis by (simp add: show_nat.simps [of n] parseInt_snoc digit_char_digit)
  qed
qed

lemma not_digit_dot: "\<not> is_digit CHR ''.''"
  by (simp add: is_digit_def)

lemma match_chunk_here_name: "match_chunk_here (chunk_file_name n) = Some (show_nat n)"
proof -
  have all: "\<And>x. x \<in> set (show_nat n) \<Longrightarrow> is_digit x"
    using show_nat_digits [of n] by (simp add: list_all_iff)
  have t: "takeWhile is_digit (show_nat n @ ''.json'') = show_nat n"
    using all by (simp add: takeWhile_append2 not_digit_dot)
  have d: "dropWhile is_digit (show_nat n @ ''.json'') = ''.json''"
    using all by (simp add: dropWhile_append2 not_digit_dot)
  show ?thesis
    using show_nat_digits [of n] by (simp add: match_chunk_here_def chunk_file_name_def t d)
qed

lemma chunk_index_name: "chunk_index (chunk_file_name n) = Some n"
proof -
  have "match_chunk (chunk_file_name n) = Some (show_nat n)"
    using match_chunk_here_name [of n] by (simp add: chunk_file_name_def)
  then show ?thesis by (simp add: chunk_index_def parseInt_show_nat)
qed

lemma slash_not_in_name: "CHR ''/'' \<notin> set (chunk_file_name n)"
proof -
  have "\<not> is_digit CHR ''/''" by (simp add: is_digit_def)
  then have "CHR ''/'' \<notin> set (show_nat n)"
    using show_nat_digits [of n] by (auto simp add: list_all_iff)
  then show ?thesis by (simp add: chunk_file_name_def)
qed

lemma basename_in_dir: "basename (dir @ CHR ''/'' # chunk_file_name n) = chunk_file_name n"
proof -
  have r: "rev (chunk_file_name n) = ''nosj.'' @ rev (show_nat n) @ ''_atad''"
    by (simp add: chunk_file_name_def)
  have s: "\<And>x. x \<in> set (rev (chunk_file_name n)) \<Longrightarrow> x \<noteq> CHR ''/''"
    using slash_not_in_name [of n] by auto
  have "dropWhile (\<lambda>c. c = CHR ''/'') (rev (dir @ ''/'' @ chunk_file_name n))
          = rev (chunk_file_name n) @ ''/'' @ rev dir"
    by (simp add: r)
  moreover have "takeWhile (\<lambda>c. c \<noteq> CHR ''/'') (rev (chunk_file_name n) @ ''/'' @ rev dir)
                   = rev (chunk_file_name n) @ takeWhile (\<lambda>c. c \<noteq> CHR ''/'') (''/'' @ rev dir)"
    by (rule takeWhile_append2) (rule s)
  ultimately show ?thesis by (simp add: basename_def)
qed

lemma ends_with_json_name: "ends_with_json (chunk_file_name n)"
  by (simp add: ends_with_json_def chunk_file_name_def)

subsection \<open>The export loop\<close>

lemma export_loop_concat:
  "0 < csize \<Longrightarrow> concat (map snd (export_loop csize results i k)) = drop i results"
proof (induction csize results i k rule: export_loop.induct)
  case (1 csize results i chunkIndex)
  show ?case
  proof (cases "i < length results")
    case True
    with 1 have "concat (map snd (export_loop csize results (i + csize) (chunkIndex + 1)))
                   = drop (i + csize) results" by simp
    with True 1(2) show ?thesis
      by (simp add: export_loop.simps [of csize results i chunkIndex] add.commute
            flip: drop_drop)
  next
    case False
    then show ?thesis by (simp add: export_loop.simps [of csize results i chunkIndex])
  qed
qed

lemma export_loop_length:
  "0 < csize \<Longrightarrow> length (export_loop csize results i k) = (length results - i + csize - 1) div csize"
proof (induction csize results i k rule: export_loop.induct)
  case (1 csize results i chunkIndex)
  show ?case
  proof (cases "i < length results")
    case True
    with 1 have ih: "length (export_loop csize results (i + csize) (chunkIndex + 1))
                   = (length results - (i + csize) + csize - 1) div csize" by simp
    have "(length results - i + csize - 1) div csize
            = Suc ((length results - (i + csize) + csize - 1) div csize)"
    proof (cases "i + csize \<le> length results")
      case True
      define m where "m = length results - (i + csize) + csize - 1"
      have "length results - i + csize - 1 = m + csize"
        using True 1(2) by (simp add: m_def)
      moreover have "(m + csize) div csize = Suc (m div csize)"
        using div_add_self2 [of csize m] 1(2) by simp
      ultimately show ?thesis by (simp add: m_def)
    next
      case False
      then have "length results - (i + csize) + csize - 1 = csize - 1" by simp
      moreover have "csize \<le> length results - i + csize - 1" using True by simp
      moreover have "length results - i + csize - 1 < 2 * csize" using False True by simp
      ultimately show ?thesis using 1(2)
        by (simp add: div_nat_eqI)
    qed
    with ih True 1(2) show ?thesis
      by (simp add: export_loop.simps [of csize results i chunkIndex])
  next
    case False
    then have "length results - i + csize - 1 < csize" using 1(2) by simp
    with False show ?thesis by (simp add: export_loop.simps [of csize results i chunkIndex])
  qed
qed

lemma export_loop_nth:
  "0 < csize \<Longrightarrow> j < length (export_loop csize results i k) \<Longrightarrow>
     export_loop csize results i k ! j = (chunk_file_name (k + j), take csize (drop (i + j * csize) results))"
proof (induction csize results i k arbitrary: j rule: export_loop.induct)
  case (1 csize results i chunkIndex)
  show ?case
  proof (cases "i < length results")
    case True
    show ?thesis
    proof (cases j)
      case 0
      with True 1(2) show ?thesis by (simp add: export_loop.simps [of csize results i chunkIndex])
    next
      case (Suc j')
      with True 1(2,3) have "j' < length (export_loop csize results (i + csize) (chunkIndex + 1))"
        by (simp add: export_loop.simps [of csize results i chunkIndex])
      with 1(1) True 1(2) have "export_loop csize results (i + csize) (chunkIndex + 1) ! j'
          = (chunk_file_name (chunkIndex + 1 + j'), take csize (drop (i + csize + j' * csize) results))"
        by simp
      with True 1(2) Suc show ?thesis
        by (simp add: export_loop.simps [of csize results i chunkIndex] add.assoc)
    qed
  next
    case False
    with 1(3) show ?thesis by (simp add: export_loop.simps [of csize results i chunkIndex])
  qed
qed

subsection \<open>Export and import\<close>

lemma take_drop_nths: "take n (drop m xs) = map ((!) xs) [m ..< min (m + n) (length xs)]"
proof (rule nth_equalityI)
  show "length (take n (drop m xs)) = length (map ((!) xs) [m ..< min (m + n) (length xs)])"
    by auto
next
  fix i
  assume "i < length (take n (drop m xs))"
  then have "i < n" and "m + i < length xs" by auto
  then show "take n (drop m xs) ! i = map ((!) xs) [m ..< min (m + n) (length xs)] ! i"
    by simp
qed

lemma exportChunks_length:
  "0 < csize \<Longrightarrow> length (exportChunks csize rows) = (length rows + csize - 1) div csize"
  by (simp add: exportChunks_def export_loop_length)

lemma exportChunks_nth:
  "0 < csize \<Longrightarrow> i < length (exportChunks csize rows) \<Longrightarrow>
     exportChunks csize rows ! i
       = (chunk_file_name (i + 1), map export_value (take csize (drop (i * csize) rows)))"
  by (simp add: exportChunks_def export_loop_nth take_map drop_map)

lemma exportChunks_concat:
  "0 < csize \<Longrightarrow> concat (map snd (exportChunks csize rows)) = map export_value rows"
  by (simp add: exportChunks_def export_loop_concat)

lemma read_all_written:
  "read_all (map (\<lambda>(f, c). (f, Some c)) files) = Some (concat (map snd files))"
  by (induction files) auto

lemma written_keys:
  assumes "0 < csize"
  shows "map index_key (map (\<lambda>(f, c). (f, Some c)) (exportChunks csize rows))
           = [Suc 0 ..< Suc (length (exportChunks csize rows))]"
proof (rule nth_equalityI)
  show "length (map index_key (map (\<lambda>(f, c). (f, Some c)) (exportChunks csize rows)))
          = length [Suc 0 ..< Suc (length (exportChunks csize rows))]"
    by (simp del: upt_Suc)
next
  fix i
  assume "i < length (map index_key (map (\<lambda>(f, c). (f, Some c)) (exportChunks csize rows)))"
  then have i: "i < length (exportChunks csize rows)" by simp
  then have "[Suc 0 ..< Suc (length (exportChunks csize rows))] ! i = Suc i"
    by (simp del: upt_Suc)
  with i show "map index_key (map (\<lambda>(f, c). (f, Some c)) (exportChunks csize rows)) ! i
          = [Suc 0 ..< Suc (length (exportChunks csize rows))] ! i"
    by (simp add: exportChunks_nth [OF assms] index_key_def chunk_index_name)
qed

lemma sort_short: "length xs \<le> 1 \<Longrightarrow> sort_key f xs = xs"
  by (cases xs) auto

lemma written_entry_name:
  assumes c: "0 < csize"
    and x: "x \<in> set (map (\<lambda>(f, c). (f, Some c)) (exportChunks csize rows))"
  shows "\<exists>n. fst x = chunk_file_name n"
proof -
  from x obtain e where e: "e \<in> set (exportChunks csize rows)" and xe: "x = (fst e, Some (snd e))"
    by (auto simp add: case_prod_beta)
  from e obtain i where i: "i < length (exportChunks csize rows)" and ei: "exportChunks csize rows ! i = e"
    unfolding in_set_conv_nth by blast
  from exportChunks_nth [OF c i] ei have "fst e = chunk_file_name (i + 1)"
    by simp
  with xe show ?thesis by auto
qed

lemma sort_files_written:
  assumes c: "0 < csize"
    and m: "mset dir = mset (map (\<lambda>(f, c). (f, Some c)) (exportChunks csize rows))"
  shows "sort_files dir = Some (map (\<lambda>(f, c). (f, Some c)) (exportChunks csize rows))"
proof -
  let ?E = "map (\<lambda>(f, c). (f, Some c)) (exportChunks csize rows)"
  have keys: "map index_key ?E = [Suc 0 ..< Suc (length (exportChunks csize rows))]"
    by (rule written_keys [OF c])
  have s: "set dir = set ?E" using m by (rule mset_eq_setD)
  have "distinct (map index_key ?E)" by (simp only: keys distinct_upt)
  then have "inj_on index_key (set ?E)" by (simp only: distinct_map)
  then have inj: "inj_on index_key (set dir)" by (simp only: s)
  have "sorted (map index_key ?E)" by (simp only: keys sorted_upt)
  with m inj have sorted: "sort_key index_key dir = ?E"
    by (rule sort_key_inj_key_eq)
  have known: "chunk_index (fst x) \<noteq> None" if "x \<in> set dir" for x
  proof -
    from that s have "x \<in> set ?E" by (simp only:)
    from written_entry_name [OF c this] obtain n where "fst x = chunk_file_name n" ..
    then show ?thesis by (simp add: chunk_index_name)
  qed
  have all: "list_all (\<lambda>(f, c). chunk_index f \<noteq> None) dir"
    unfolding list_all_iff
  proof
    fix x assume "x \<in> set dir"
    from known [OF this] show "case x of (f, c) \<Rightarrow> chunk_index f \<noteq> None"
      by (simp add: case_prod_beta)
  qed
  show ?thesis
  proof (cases "length dir \<le> 1")
    case True
    then have "sort_key index_key dir = dir" by (rule sort_short)
    with sorted have "dir = ?E" by (simp only:)
    with True show ?thesis by (simp only: sort_files_def if_True)
  next
    case False
    with all sorted show ?thesis by (simp only: sort_files_def if_True if_False)
  qed
qed

lemma importAll_written:
  assumes c: "0 < csize"
    and m: "mset dir = mset (map (\<lambda>(f, c). (f, Some c)) (exportChunks csize rows))"
  shows "importAll dir = Some (map export_value rows)"
proof -
  let ?E = "map (\<lambda>(f, c). (f, Some c)) (exportChunks csize rows)"
  have s: "set dir = set ?E" using m by (rule mset_eq_setD)
  have "case x of (f, c) \<Rightarrow> ends_with_json f" if "x \<in> set dir" for x
  proof -
    from that s have "x \<in> set ?E" by (simp only:)
    from written_entry_name [OF c this] obtain n where "fst x = chunk_file_name n" ..
    then show ?thesis by (simp add: ends_with_json_name case_prod_beta)
  qed
  then have "filter (\<lambda>(f, c). ends_with_json f) dir = dir"
    by (simp only: filter_id_conv) blast
  then show ?thesis
    by (simp only: importAll_def sort_files_written [OF c m] read_all_written exportChunks_concat [OF c] option.case)
qed

text \<open>
  Claim C2. With a chunk size of at least 1, the export writes \<open>\<lceil>n / size\<rceil>\<close> files, the
  \<open>i\<close>-th (counted from 0) named \<open>data_<i+1>.json\<close> and holding the values of the rows
  \<open>i * size\<close> up to \<open>min ((i + 1) * size) n\<close>, each empty or absent value replaced by a single
  space; and reading a directory that lists exactly these files, in any order, gives back
  the whole sequence of values in row order.
\<close>

theorem chunk_export_import_roundtrip:
  "(1 \<le> csize \<longrightarrow>
     length (exportChunks csize rows) = (length rows + csize - 1) div csize
     \<and> (\<forall>i < length (exportChunks csize rows).
           exportChunks csize rows ! i
             = (chunk_file_name (i + 1),
                map (\<lambda>k. export_value (rows ! k)) [i * csize ..< min (i * csize + csize) (length rows)]))
     \<and> (\<forall>dir. mset dir = mset (map (\<lambda>(f, c). (f, Some c)) (exportChunks csize rows))
           \<longrightarrow> importAll dir = Some (map export_value rows)))
   \<and> chunk_file_name n = ''data_'' @ show_nat n @ ''.json''
   \<and> export_value row
       = (case map_of row ''English'' of None \<Rightarrow> '' '' | Some v \<Rightarrow> if v = [] then '' '' else v)"
proof (intro impI conjI allI)
  assume "1 \<le> csize"
  then show "length (exportChunks csize rows) = (length rows + csize - 1) div csize"
    by (simp add: exportChunks_length)
next
  fix i
  assume "1 \<le> csize" and "i < length (exportChunks csize rows)"
  then show "exportChunks csize rows ! i
             = (chunk_file_name (i + 1),
                map (\<lambda>k. export_value (rows ! k)) [i * csize ..< min (i * csize + csize) (length rows)])"
    by (simp add: exportChunks_nth take_drop_nths)
next
  fix dir
  assume "1 \<le> csize"
    and "mset dir = mset (map (\<lambda>(f, c). (f, Some c)) (exportChunks csize rows))"
  then show "importAll dir = Some (map export_value rows)"
    by (intro importAll_written) simp_all
next
  show "chunk_file_name n = ''data_'' @ show_nat n @ ''.json''"
    by (simp add: chunk_file_name_def)
next
  show "export_value row
       = (case map_of row ''English'' of None \<Rightarrow> '' '' | Some v \<Rightarrow> if v = [] then '' '' else v)"
    by (simp add: export_value_def)
qed

theorem chunk_export_import_roundtrip_witness:
  "(1::nat) \<le> 2
   \<and> exportChunks 2 [[(''English'', ''one'')], [(''English'', '''')], [(''Key'', ''k'')],
                      [(''English'', ''four'')], [(''English'', ''five'')]]
       = [(''data_1.json'', [''one'', '' '']), (''data_2.json'', ['' '', ''four'']), (''data_3.json'', [''five''])]
   \<and> importAll [(''data_3.json'', Some [''five'']), (''data_1.json'', Some [''one'', '' '']),
                 (''data_2.json'', Some ['' '', ''four''])]
       = Some [''one'', '' '', '' '', ''four'', ''five'']"
proof -
  let ?rows = "[[(''English'', ''one'')], [(''English'', '''')], [(''Key'', ''k'')],
                [(''English'', ''four'')], [(''English'', ''five'')]] :: row list"
  let ?dir = "[(''data_3.json'', Some [''five'']), (''data_1.json'', Some [''one'', '' '']),
               (''data_2.json'', Some ['' '', ''four''])]"
  have e: "exportChunks 2 ?rows
       = [(''data_1.json'', [''one'', '' '']), (''data_2.json'', ['' '', ''four'']), (''data_3.json'', [''five''])]"
    by code_simp
  have v: "map export_value ?rows = [''one'', '' '', '' '', ''four'', ''five'']"
    by code_simp
  have m: "mset ?dir = mset (map (\<lambda>(f, c). (f, Some c)) (exportChunks 2 ?rows))"
    by (simp add: e)
  have two: "(1::nat) \<le> 2" by simp
  from chunk_export_import_roundtrip [of 2 ?rows] two
  have "\<forall>dir. mset dir = mset (map (\<lambda>(f, c). (f, Some c)) (exportChunks 2 ?rows))
           \<longrightarrow> importAll dir = Some (map export_value ?rows)"
    by blast
  with m have "importAll ?dir = Some (map export_value ?rows)" by blast
  with e v two show ?thesis by (simp only:)
qed

subsection \<open>The length check of one chunk\<close>

lemma length_check_of_matched_name:
  "(\<forall>N. chunk_index (basename translationFile) = Some N \<longrightarrow>
         ((\<exists>actual expected. updateCsvWithTranslation parsed translationFile translations
                                = Inl (LengthMismatch actual expected))
            \<longleftrightarrow> int (length translations)
                  \<noteq> min (int chunkSize) (int (length parsed) - (int N - 1) * int chunkSize))
         \<and> (int (length translations)
                  \<noteq> min (int chunkSize) (int (length parsed) - (int N - 1) * int chunkSize)
              \<longrightarrow> updateCsvWithTranslation parsed translationFile translations
                    = Inl (LengthMismatch (length translations)
                             (min (int chunkSize) (int (length parsed) - (int N - 1) * int chunkSize)))))
   \<and> chunk_index (basename (dir @ ''/'' @ chunk_file_name N')) = Some N'"
  by (auto simp add: updateCsvWithTranslation_def Let_def getCsvRows_all basename_in_dir chunk_index_name
      split: option.splits)

text \<open>
  Claim C8. For a name in which the pattern is found, the length test is the one claimed
  (\<open>length_check_of_matched_name\<close>). The pattern is searched for anywhere in the name and
  takes any digits: \<open>mydata_1.json.bak\<close>, which is not a name \<open>data_<N>.json\<close>, is taken as
  chunk 1 and its values are written; \<open>data_0.json\<close>, whose index is not a chunk index, passes
  the name test and, with 100 values, the length test, and the run ends in the exception of
  reading a row before the first, not in the invalid-name error.
\<close>

theorem chunk_name_pattern_unanchored:
  "basename ''output_json/mydata_1.json.bak'' = ''mydata_1.json.bak''
   \<and> chunk_index ''mydata_1.json.bak'' = Some 1
   \<and> updateCsvWithTranslation [[(''Key'', ''a''), (''English'', ''Hello'')]]
         ''output_json/mydata_1.json.bak'' [''Halo'']
       = Inr [[(''Key'', ''a''), (''English'', ''Halo'')]]
   \<and> chunk_index ''data_0.json'' = Some 0
   \<and> updateCsvWithTranslation [[(''Key'', ''a''), (''English'', ''Hello'')]]
         ''output_json/data_0.json'' (replicate 100 ''Halo'')
       = Inl Exception
   \<and> updateCsvWithTranslation [[(''Key'', ''a''), (''English'', ''Hello'')]]
         ''output_json/first.json'' [''Halo'']
       = Inl InvalidFilename"
  by code_simp

subsection \<open>Which rows are kept\<close>

lemma apply_chunk_length: "length (apply_chunk rows idx ts) = length rows"
  by (induction ts arbitrary: rows idx) simp_all

lemma apply_all_length: "length (apply_all rows allTranslations) = length rows"
  by (simp add: apply_all_def)

lemma key_ok_iff: "key_ok row \<longleftrightarrow> (\<exists>k. map_of row ''Key'' = Some k \<and> trim k \<noteq> [])"
  by (auto simp add: key_ok_def trim_def split: option.splits)

lemma extract_all_rows: "concat (map snd (extractEnglishToJson parsed)) = map export_value parsed"
  by (simp add: extractEnglishToJson_def exportChunks_concat chunkSize_def)

text \<open>
  Claim C9, as the code has it. \<open>split\<close> and both readers of \<open>merge\<close> keep exactly the parsed
  rows whose \<open>Key\<close> is present and not empty after trimming, in their order. The chunk
  utility has no such test: \<open>getCsvRows\<close> keeps every parsed row, \<open>extract\<close> exports a value
  for every parsed row, and \<open>update\<close> and \<open>update-all\<close> write as many rows as were parsed.
\<close>

theorem row_store_retention:
  "split_rows parsed = filter key_ok parsed
   \<and> scan_rows (read_orig parsed) = filter key_ok parsed
   \<and> scan_rows (read_new parsed) = filter key_ok parsed
   \<and> (key_ok row \<longleftrightarrow> (\<exists>k. map_of row ''Key'' = Some k \<and> trim k \<noteq> []))
   \<and> getCsvRows parsed = parsed
   \<and> concat (map snd (extractEnglishToJson parsed)) = map export_value parsed
   \<and> (\<forall>out. updateCsvWithTranslation parsed translationFile translations = Inr out
          \<longrightarrow> length out = length parsed)
   \<and> (\<forall>out. updateCsvWithAllTranslations parsed dir = Inr out \<longrightarrow> length out = length parsed)"
proof -
  have "length out = length parsed"
    if "updateCsvWithTranslation parsed translationFile translations = Inr out" for out
    using that
    by (auto simp add: updateCsvWithTranslation_def Let_def getCsvRows_all apply_chunk_length
        split: option.splits if_splits)
  moreover have "length out = length parsed"
    if "updateCsvWithAllTranslations parsed dir = Inr out" for out
    using that
    by (auto simp add: updateCsvWithAllTranslations_def Let_def getCsvRows_all apply_all_length
        split: option.splits if_splits)
  ultimately show ?thesis
    using key_ok_iff [of row]
    by (simp add: split_rows_filter read_orig_rows read_new_rows getCsvRows_all extract_all_rows)
qed

theorem row_store_retention_witness:
  "split_rows [[(''Key'', ''K1''), (''English'', ''Hello'')], [(''Key'', ''  ''), (''English'', ''Bye'')]]
     = [[(''Key'', ''K1''), (''English'', ''Hello'')]]
   \<and> getCsvRows [[(''Key'', ''K1''), (''English'', ''Hello'')], [(''Key'', ''  ''), (''English'', ''Bye'')]]
     = [[(''Key'', ''K1''), (''English'', ''Hello'')], [(''Key'', ''  ''), (''English'', ''Bye'')]]
   \<and> updateCsvWithAllTranslations
        [[(''Key'', ''K1''), (''English'', ''Hello'')], [(''Key'', ''  ''), (''English'', ''Bye'')]]
        [(''data_1.json'', Some [''Halo'', ''Dah''])]
     = Inr [[(''Key'', ''K1''), (''English'', ''Halo'')], [(''Key'', ''  ''), (''English'', ''Dah'')]]
   \<and> length [[(''Key'', ''K1''), (''English'', ''Halo'')], [(''Key'', ''  ''), (''English'', ''Dah'')]]
     = length [[(''Key'', ''K1''), (''English'', ''Hello'')], [(''Key'', ''  ''), (''English'', ''Bye'')]]"
proof -
  let ?parsed = "[[(''Key'', ''K1''), (''English'', ''Hello'')], [(''Key'', ''  ''), (''English'', ''Bye'')]] :: row list"
  let ?out = "[[(''Key'', ''K1''), (''English'', ''Halo'')], [(''Key'', ''  ''), (''English'', ''Dah'')]] :: row list"
  have f: "filter key_ok ?parsed = [[(''Key'', ''K1''), (''English'', ''Hello'')]]"
    by code_simp
  have u: "updateCsvWithAllTranslations ?parsed [(''data_1.json'', Some [''Halo'', ''Dah''])] = Inr ?out"
    by code_simp
  from row_store_retention [of ?parsed "[]" "[]" "[]" "[(''data_1.json'', Some [''Halo'', ''Dah''])]"]
  have "split_rows ?parsed = filter key_ok ?parsed" and "getCsvRows ?parsed = ?parsed"
    and "\<forall>out. updateCsvWithAllTranslations ?parsed [(''data_1.json'', Some [''Halo'', ''Dah''])] = Inr out
           \<longrightarrow> length out = length ?parsed"
    by blast+
  with f u show ?thesis by (simp only:)
qed

text \<open>
  A row whose key is blank is dropped by \<open>split\<close> but kept by the chunk utility: its value is
  exported, and both updates write the row.
\<close>

theorem blank_key_rows_kept_by_chunk_utility:
  "\<not> key_ok [(''Key'', ''  ''), (''English'', ''Hello'')]
   \<and> split_rows [[(''Key'', ''  ''), (''English'', ''Hello'')]] = []
   \<and> getCsvRows [[(''Key'', ''  ''), (''English'', ''Hello'')]] = [[(''Key'', ''  ''), (''English'', ''Hello'')]]
   \<and> extractEnglishToJson [[(''Key'', ''  ''), (''English'', ''Hello'')]] = [(''data_1.json'', [''Hello''])]
   \<and> updateCsvWithTranslation [[(''Key'', ''  ''), (''English'', ''Hello'')]] ''output_json/data_1.json'' [''Halo'']
       = Inr [[(''Key'', ''  ''), (''English'', ''Halo'')]]
   \<and> updateCsvWithAllTranslations [[(''Key'', ''  ''), (''English'', ''Hello'')]] [(''data_1.json'', Some [''Halo''])]
       = Inr [[(''Key'', ''  ''), (''English'', ''Halo'')]]"
  by code_simp

subsection \<open>Validation before any update\<close>

lemma compare_row: "e \<in> set (compare rowNo key original translated) \<Longrightarrow> mismatch_row e = rowNo"
  by (auto simp add: compare_def Let_def split: if_splits)

lemma check_pair_row: "e \<in> set (check_pair rows idx t) \<Longrightarrow> mismatch_row e = idx + 1"
  by (simp add: check_pair_def compare_row)

lemma report_covers:
  assumes "i < n" and "check_pair rows (start + i) (ts ! i) \<noteq> []"
  shows "\<exists>e \<in> set (concat (map (\<lambda>j. check_pair rows (start + j) (ts ! j)) [0..<n])).
           mismatch_row e = start + i + 1"
proof -
  from assms(2) obtain e where e: "e \<in> set (check_pair rows (start + i) (ts ! i))"
    by (cases "check_pair rows (start + i) (ts ! i)") auto
  with assms(1) have "e \<in> set (concat (map (\<lambda>j. check_pair rows (start + j) (ts ! j)) [0..<n]))"
    by auto
  with check_pair_row [OF e] show ?thesis by blast
qed

lemma upt_shift: "map f [0..<Suc n] = f 0 # map (\<lambda>j. f (Suc j)) [0..<n]"
  by (simp only: upt_conv_Cons [of 0 "Suc n"] flip: map_Suc_upt) (simp add: comp_def)

lemma validate_chunk_in_range:
  "start + length ts \<le> length rows \<Longrightarrow>
     validate_chunk rows (int start) ts
       = Some (concat (map (\<lambda>j. check_pair rows (start + j) (ts ! j)) [0..<length ts]))"
proof (induction ts arbitrary: start)
  case Nil
  show ?case by simp
next
  case (Cons t ts)
  from Cons.prems have "Suc start + length ts \<le> length rows" by simp
  from Cons.IH [OF this]
  have ih: "validate_chunk rows (int start + 1) ts
          = Some (concat (map (\<lambda>j. check_pair rows (Suc start + j) (ts ! j)) [0..<length ts]))"
    by (simp add: add.commute)
  have "map (\<lambda>j. check_pair rows (start + j) ((t # ts) ! j)) [0..<Suc (length ts)]
          = check_pair rows start t # map (\<lambda>j. check_pair rows (Suc start + j) (ts ! j)) [0..<length ts]"
    by (simp only: upt_shift) simp
  with ih Cons.prems show ?case by simp
qed

lemma concat_empty_iff: "concat (map f xs) = [] \<longleftrightarrow> (\<forall>x \<in> set xs. f x = [])"
  by (induction xs) auto

lemma update_chunk_validated:
  assumes idx: "chunk_index (basename translationFile) = Some N"
    and st: "(int N - 1) * int chunkSize = int start"
    and len: "int (length translations) = min (int chunkSize) (int (length parsed) - int start)"
  shows "updateCsvWithTranslation parsed translationFile translations
           = (let report = concat (map (\<lambda>j. check_pair parsed (start + j) (translations ! j))
                                    [0..<length translations])
              in if report \<noteq> [] then Inl (ValueErrors report)
                 else Inr (apply_chunk parsed start translations))"
proof -
  from len have "int (length translations) \<le> int (length parsed) - int start"
    by linarith
  then have fit: "start + length translations \<le> length parsed"
    by linarith
  show ?thesis
    using idx len
    by (simp add: updateCsvWithTranslation_def Let_def getCsvRows_all st
          validate_chunk_in_range [OF fit])
qed

lemma update_all_validated:
  assumes "importAll dir = Some allTranslations" and "length allTranslations = length parsed"
  shows "updateCsvWithAllTranslations parsed dir
           = (let report = concat (map (\<lambda>i. check_pair parsed i (allTranslations ! i)) [0..<length parsed])
              in if report \<noteq> [] then Inl (ValueErrors report)
                 else Inr (apply_all parsed allTranslations))"
  using assms
  by (simp add: updateCsvWithAllTranslations_def Let_def getCsvRows_all validate_all_def)

text \<open>
  Claim C3. For one chunk whose file name has index \<open>N \<ge> 1\<close> and whose length passes the
  length check, and for all chunks whose total length is the row count: the mismatch list of
  pair \<open>i\<close> is \<open>check_pair\<close>, that is \<open>compare\<close> on the row's English value and the
  translated value. If some pair has a mismatch, the run ends with the report and writes
  nothing; the report is the mismatch lists of all pairs in row order, so every mismatching
  pair has an entry with its row number. Rows are updated and written only when every pair
  has an empty mismatch list.
\<close>

theorem validation_all_or_nothing:
  "(\<forall>N. chunk_index (basename translationFile) = Some N \<and> 1 \<le> N
         \<and> int (length translations)
               = min (int chunkSize) (int (length parsed) - (int N - 1) * int chunkSize) \<longrightarrow>
       ((\<exists>j<length translations. check_pair parsed ((N - 1) * chunkSize + j) (translations ! j) \<noteq> []) \<longrightarrow>
          updateCsvWithTranslation parsed translationFile translations
            = Inl (ValueErrors (concat (map (\<lambda>j. check_pair parsed ((N - 1) * chunkSize + j) (translations ! j))
                                         [0..<length translations])))
          \<and> (\<forall>j<length translations.
                 check_pair parsed ((N - 1) * chunkSize + j) (translations ! j) \<noteq> [] \<longrightarrow>
                 (\<exists>e \<in> set (concat (map (\<lambda>j. check_pair parsed ((N - 1) * chunkSize + j) (translations ! j))
                                         [0..<length translations])).
                    mismatch_row e = (N - 1) * chunkSize + j + 1)))
       \<and> ((\<forall>j<length translations. check_pair parsed ((N - 1) * chunkSize + j) (translations ! j) = []) \<longrightarrow>
          updateCsvWithTranslation parsed translationFile translations
            = Inr (apply_chunk parsed ((N - 1) * chunkSize) translations)))
   \<and> (\<forall>allTranslations. importAll dir = Some allTranslations \<and> length allTranslations = length parsed \<longrightarrow>
       ((\<exists>i<length parsed. check_pair parsed i (allTranslations ! i) \<noteq> []) \<longrightarrow>
          updateCsvWithAllTranslations parsed dir
            = Inl (ValueErrors (concat (map (\<lambda>i. check_pair parsed i (allTranslations ! i)) [0..<length parsed])))
          \<and> (\<forall>i<length parsed.
                 check_pair parsed i (allTranslations ! i) \<noteq> [] \<longrightarrow>
                 (\<exists>e \<in> set (concat (map (\<lambda>i. check_pair parsed i (allTranslations ! i)) [0..<length parsed])).
                    mismatch_row e = i + 1)))
       \<and> ((\<forall>i<length parsed. check_pair parsed i (allTranslations ! i) = []) \<longrightarrow>
          updateCsvWithAllTranslations parsed dir = Inr (apply_all parsed allTranslations)))
   \<and> (\<forall>idx t. check_pair parsed idx t
          = compare (idx + 1) (map_of (parsed ! idx) ''Key'') (or_empty (map_of (parsed ! idx) ''English'')) t)"
proof (intro conjI allI impI)
  fix N
  assume a: "chunk_index (basename translationFile) = Some N \<and> 1 \<le> N
         \<and> int (length translations)
               = min (int chunkSize) (int (length parsed) - (int N - 1) * int chunkSize)"
  let ?f = "\<lambda>j. check_pair parsed ((N - 1) * chunkSize + j) (translations ! j)"
  from a have st: "(int N - 1) * int chunkSize = int ((N - 1) * chunkSize)"
    by (simp add: of_nat_diff)
  from a have "int (length translations)
                 = min (int chunkSize) (int (length parsed) - int ((N - 1) * chunkSize))"
    by (simp only: st)
  with a st have u: "updateCsvWithTranslation parsed translationFile translations
           = (let report = concat (map ?f [0..<length translations])
              in if report \<noteq> [] then Inl (ValueErrors report)
                 else Inr (apply_chunk parsed ((N - 1) * chunkSize) translations))"
    by (intro update_chunk_validated) blast+
  {
    assume "\<exists>j<length translations. ?f j \<noteq> []"
    then have "concat (map ?f [0..<length translations]) \<noteq> []"
      by (auto simp add: concat_empty_iff)
    with u show "updateCsvWithTranslation parsed translationFile translations
            = Inl (ValueErrors (concat (map ?f [0..<length translations])))"
      by (simp add: Let_def)
  }
  {
    fix j
    assume "j < length translations" and "?f j \<noteq> []"
    then show "\<exists>e \<in> set (concat (map ?f [0..<length translations])). mismatch_row e = (N - 1) * chunkSize + j + 1"
      by (rule report_covers)
  }
  {
    assume "\<forall>j<length translations. ?f j = []"
    then have "concat (map ?f [0..<length translations]) = []"
      by (auto simp add: concat_empty_iff)
    with u show "updateCsvWithTranslation parsed translationFile translations
            = Inr (apply_chunk parsed ((N - 1) * chunkSize) translations)"
      by (simp add: Let_def)
  }
next
  fix allTranslations
  assume a: "importAll dir = Some allTranslations \<and> length allTranslations = length parsed"
  let ?f = "\<lambda>i. check_pair parsed i (allTranslations ! i)"
  from a have u: "updateCsvWithAllTranslations parsed dir
           = (let report = concat (map ?f [0..<length parsed])
              in if report \<noteq> [] then Inl (ValueErrors report)
                 else Inr (apply_all parsed allTranslations))"
    by (intro update_all_validated) simp_all
  {
    assume "\<exists>i<length parsed. ?f i \<noteq> []"
    then have "concat (map ?f [0..<length parsed]) \<noteq> []"
      by (auto simp add: concat_empty_iff)
    with u show "updateCsvWithAllTranslations parsed dir
            = Inl (ValueErrors (concat (map ?f [0..<length parsed])))"
      by (simp add: Let_def)
  }
  {
    fix i
    assume "i < length parsed" and "?f i \<noteq> []"
    with report_covers [of i "length parsed" parsed 0 allTranslations]
    show "\<exists>e \<in> set (concat (map ?f [0..<length parsed])). mismatch_row e = i + 1"
      by simp
  }
  {
    assume "\<forall>i<length parsed. ?f i = []"
    then have "concat (map ?f [0..<length parsed]) = []"
      by (auto simp add: concat_empty_iff)
    with u show "updateCsvWithAllTranslations parsed dir = Inr (apply_all parsed allTranslations)"
      by (simp add: Let_def)
  }
next
  fix idx t
  show "check_pair parsed idx t
          = compare (idx + 1) (map_of (parsed ! idx) ''Key'') (or_empty (map_of (parsed ! idx) ''English'')) t"
    by (simp add: check_pair_def)
qed

theorem validation_all_or_nothing_witness:
  "updateCsvWithTranslation
      [[(''Key'', ''k1''), (''English'', ''Hi {name}'')], [(''Key'', ''k2''), (''English'', ''Pay $5'')]]
      ''output_json/data_1.json'' [''Halo'', ''Bayar 5'']
     = Inl (ValueErrors [PlaceholderMismatch 1 (Some ''k1'') [''name''] [],
                         SymbolCountMismatch 2 (Some ''k2'') 1 0])
   \<and> updateCsvWithAllTranslations
      [[(''Key'', ''k1''), (''English'', ''Hi {name}'')], [(''Key'', ''k2''), (''English'', ''Pay $5'')]]
      [(''data_1.json'', Some [''Halo'', ''Bayar 5''])]
     = Inl (ValueErrors [PlaceholderMismatch 1 (Some ''k1'') [''name''] [],
                         SymbolCountMismatch 2 (Some ''k2'') 1 0])"
proof -
  let ?P = "[[(''Key'', ''k1''), (''English'', ''Hi {name}'')], [(''Key'', ''k2''), (''English'', ''Pay $5'')]] :: row list"
  let ?ts = "[''Halo'', ''Bayar 5'']"
  let ?dir = "[(''data_1.json'', Some ?ts)]"
  let ?report = "[PlaceholderMismatch 1 (Some ''k1'') [''name''] [], SymbolCountMismatch 2 (Some ''k2'') 1 0]"
  note t = validation_all_or_nothing [of "''output_json/data_1.json''" ?ts ?P ?dir]
  have i: "chunk_index (basename ''output_json/data_1.json'') = Some 1 \<and> (1::nat) \<le> 1
         \<and> int (length ?ts) = min (int chunkSize) (int (length ?P) - (int 1 - 1) * int chunkSize)"
  proof (intro conjI)
    show "chunk_index (basename ''output_json/data_1.json'') = Some 1" by code_simp
    show "(1::nat) \<le> 1" by simp
    show "int (length ?ts) = min (int chunkSize) (int (length ?P) - (int 1 - 1) * int chunkSize)"
      by (simp add: chunkSize_def)
  qed
  have "check_pair ?P ((1 - 1) * chunkSize + 0) (?ts ! 0) \<noteq> []" by code_simp
  then have m: "\<exists>j<length ?ts. check_pair ?P ((1 - 1) * chunkSize + j) (?ts ! j) \<noteq> []"
    by (intro exI [of _ 0]) simp
  have r: "concat (map (\<lambda>j. check_pair ?P ((1 - 1) * chunkSize + j) (?ts ! j)) [0..<length ?ts]) = ?report"
    by code_simp
  from t i m have "updateCsvWithTranslation ?P ''output_json/data_1.json'' ?ts
      = Inl (ValueErrors (concat (map (\<lambda>j. check_pair ?P ((1 - 1) * chunkSize + j) (?ts ! j)) [0..<length ?ts])))"
    by blast
  then have a: "updateCsvWithTranslation ?P ''output_json/data_1.json'' ?ts = Inl (ValueErrors ?report)"
    by (simp only: r)
  have i2: "importAll ?dir = Some ?ts \<and> length ?ts = length ?P"
  proof
    show "importAll ?dir = Some ?ts" by code_simp
    show "length ?ts = length ?P" by simp
  qed
  have "check_pair ?P 0 (?ts ! 0) \<noteq> []" by code_simp
  then have m2: "\<exists>i<length ?P. check_pair ?P i (?ts ! i) \<noteq> []"
    by (intro exI [of _ 0]) simp
  have r2: "concat (map (\<lambda>i. check_pair ?P i (?ts ! i)) [0..<length ?P]) = ?report"
    by code_simp
  from t i2 m2 have "updateCsvWithAllTranslations ?P ?dir
      = Inl (ValueErrors (concat (map (\<lambda>i. check_pair ?P i (?ts ! i)) [0..<length ?P])))"
    by blast
  then have b: "updateCsvWithAllTranslations ?P ?dir = Inl (ValueErrors ?report)"
    by (simp only: r2)
  from a b show ?thesis by (simp only:)
qed

subsection \<open>Placeholders\<close>

lemma scan_all_sound:
  "x \<in> set (scan_all m s) \<Longrightarrow> \<exists>pre t n. s = pre @ t \<and> m t = Some (x, n)"
proof (induction m s rule: scan_all.induct)
  case (1 m)
  then show ?case by simp
next
  case (2 m c cs)
  show ?case
  proof (cases "m (c # cs)")
    case None
    with "2.prems" have "x \<in> set (scan_all m cs)" by simp
    from "2.IH"(1) [OF None this] obtain pre t n where "cs = pre @ t" and "m t = Some (x, n)" by blast
    then have "c # cs = (c # pre) @ t \<and> m t = Some (x, n)" by simp
    then show ?thesis by blast
  next
    case (Some r)
    obtain y len where r: "r = (y, len)" by (cases r)
    show ?thesis
    proof (cases "x = y")
      case True
      with Some r have "c # cs = [] @ (c # cs) \<and> m (c # cs) = Some (x, len)" by simp
      then show ?thesis by blast
    next
      case False
      with "2.prems" Some r have "x \<in> set (scan_all m (drop (len - 1) cs))" by simp
      from "2.IH"(2) [OF Some r [symmetric] this]
      obtain pre t n where d: "drop (len - 1) cs = pre @ t" and t: "m t = Some (x, n)"
        by blast
      have "take (len - 1) cs @ (pre @ t) = cs"
        by (simp only: d [symmetric] append_take_drop_id)
      then have "c # cs = (c # take (len - 1) cs @ pre) @ t"
        by simp
      with t show ?thesis by blast
    qed
  qed
qed

lemma scan_all_complete:
  assumes overlap: "\<And>t x n k x' n'. m t = Some (x, n) \<Longrightarrow> 0 < k \<Longrightarrow> k < n \<Longrightarrow>
                       m (drop k t) = Some (x', n') \<Longrightarrow> x' = x"
    and empty: "m [] = None"
    and found: "m t = Some (x, n)"
  shows "x \<in> set (scan_all m (pre @ t))"
proof (induction "length pre" arbitrary: pre rule: less_induct)
  case less
  show ?case
  proof (cases pre)
    case Nil
    from found empty obtain c cs where "t = c # cs" by (cases t) auto
    with found Nil show ?thesis by simp
  next
    case (Cons c pre')
    let ?cs = "pre' @ t"
    have s: "pre @ t = c # ?cs" by (simp add: Cons)
    show ?thesis
    proof (cases "m (c # ?cs)")
      case None
      have "x \<in> set (scan_all m ?cs)" by (rule less) (simp add: Cons)
      with None show ?thesis by (simp add: s)
    next
      case (Some r)
      obtain y len where r: "r = (y, len)" by (cases r)
      show ?thesis
      proof (cases "len - 1 \<le> length pre'")
        case True
        have "x \<in> set (scan_all m (drop (len - 1) pre' @ t))" by (rule less) (simp add: Cons)
        moreover from True have "drop (len - 1) ?cs = drop (len - 1) pre' @ t" by simp
        ultimately show ?thesis using Some r by (simp add: s)
      next
        case False
        then have k: "0 < Suc (length pre')" "Suc (length pre') < len" by simp_all
        have "drop (Suc (length pre')) (c # ?cs) = t" by simp
        with found have f: "m (drop (Suc (length pre')) (c # ?cs)) = Some (x, n)" by simp
        from Some r have "m (c # ?cs) = Some (y, len)" by simp
        from overlap [OF this k f] have "x = y" .
        with Some r show ?thesis by (simp add: s)
      qed
    qed
  qed
qed

lemma not_word_special:
  "\<not> is_word CHR ''{''" "\<not> is_word CHR ''}''" "\<not> is_word CHR ''<''"
  "\<not> is_word CHR ''>''" "\<not> is_word CHR ''=''"
  by (simp_all add: is_word_def is_digit_def)

lemma takeWhile_stop: "list_all P w \<Longrightarrow> \<not> P c \<Longrightarrow> takeWhile P (w @ c # r) = w"
  by (induction w) simp_all

lemma dropWhile_stop: "list_all P w \<Longrightarrow> \<not> P c \<Longrightarrow> dropWhile P (w @ c # r) = c # r"
  by (induction w) simp_all

lemma list_all_takeWhile: "list_all P (takeWhile P xs)"
  by (induction xs) simp_all

lemma take1_eq: "take 1 xs = [c] \<Longrightarrow> \<exists>r. xs = c # r"
  by (cases xs) simp_all

lemma match_var_here_shape:
  "list_all is_word w \<Longrightarrow>
     match_var_here (CHR ''{'' # w @ CHR ''}'' # post) = (if w \<noteq> [] then Some (w, length w + 2) else None)"
  by (simp add: match_var_here_def takeWhile_stop dropWhile_stop not_word_special)

lemma match_var_here_Some:
  assumes "match_var_here t = Some (w, n)"
  shows "\<exists>post. t = CHR ''{'' # w @ CHR ''}'' # post \<and> w \<noteq> [] \<and> list_all is_word w \<and> n = length w + 2"
proof -
  from assms obtain r where t: "t = CHR ''{'' # r"
    by (cases t) (auto simp add: match_var_here_def split: if_splits)
  from assms t have w: "takeWhile is_word r = w" and ne: "w \<noteq> []" and n: "n = length w + 2"
    and e: "take 1 (dropWhile is_word r) = [CHR ''}'']"
    by (auto simp add: match_var_here_def Let_def split: if_splits)
  from take1_eq [OF e] obtain post where d: "dropWhile is_word r = CHR ''}'' # post" ..
  have "takeWhile is_word r @ dropWhile is_word r = r" by (rule takeWhile_dropWhile_id)
  then have r: "r = w @ CHR ''}'' # post" by (simp only: w d)
  have "list_all is_word (takeWhile is_word r)" by (rule list_all_takeWhile)
  then have wa: "list_all is_word w" by (simp only: w)
  from t r ne wa n show ?thesis by blast
qed

lemma match_attr_here_shape:
  "CHR ''='' \<notin> set key \<Longrightarrow> list_all is_word v \<Longrightarrow>
     match_attr_here (CHR ''<'' # key @ CHR ''='' # v @ CHR ''>'' # post)
       = (if key \<noteq> [] \<and> v \<noteq> [] then Some (v, length key + length v + 3) else None)"
proof -
  assume k: "CHR ''='' \<notin> set key" and v: "list_all is_word v"
  from k have ka: "list_all (\<lambda>d. d \<noteq> CHR ''='') key" by (auto simp add: list_all_iff)
  have t: "takeWhile (\<lambda>d. d \<noteq> CHR ''='') (key @ CHR ''='' # v @ CHR ''>'' # post) = key"
    by (rule takeWhile_stop [OF ka]) simp
  have d: "dropWhile (\<lambda>d. d \<noteq> CHR ''='') (key @ CHR ''='' # v @ CHR ''>'' # post) = CHR ''='' # v @ CHR ''>'' # post"
    by (rule dropWhile_stop [OF ka]) simp
  have tv: "takeWhile is_word (v @ CHR ''>'' # post) = v"
    by (rule takeWhile_stop [OF v]) (rule not_word_special)
  have dv: "dropWhile is_word (v @ CHR ''>'' # post) = CHR ''>'' # post"
    by (rule dropWhile_stop [OF v]) (rule not_word_special)
  show ?thesis
    by (simp add: match_attr_here_def Let_def t d tv dv)
qed

lemma match_attr_here_Some:
  assumes "match_attr_here t = Some (v, n)"
  shows "\<exists>key post. t = CHR ''<'' # key @ CHR ''='' # v @ CHR ''>'' # post \<and> key \<noteq> []
           \<and> CHR ''='' \<notin> set key \<and> v \<noteq> [] \<and> list_all is_word v \<and> n = length key + length v + 3"
proof -
  from assms obtain r where t: "t = CHR ''<'' # r"
    by (cases t) (auto simp add: match_attr_here_def split: if_splits)
  define key where "key = takeWhile (\<lambda>d. d \<noteq> CHR ''='') r"
  define rest where "rest = dropWhile (\<lambda>d. d \<noteq> CHR ''='') r"
  from assms t have kne: "key \<noteq> []" and e: "take 1 rest = [CHR ''='']"
    and v: "takeWhile is_word (drop 1 rest) = v" and vne: "v \<noteq> []"
    and g: "take 1 (dropWhile is_word (drop 1 rest)) = [CHR ''>'']"
    and n: "n = length key + length v + 3"
    by (auto simp add: match_attr_here_def Let_def key_def rest_def split: if_splits)
  from take1_eq [OF e] obtain u where rest: "rest = CHR ''='' # u" ..
  from v rest have vu: "takeWhile is_word u = v" by simp
  from g rest have "take 1 (dropWhile is_word u) = [CHR ''>'']" by simp
  from take1_eq [OF this] obtain post where d: "dropWhile is_word u = CHR ''>'' # post" ..
  have "takeWhile is_word u @ dropWhile is_word u = u" by (rule takeWhile_dropWhile_id)
  then have u: "u = v @ CHR ''>'' # post" by (simp only: vu d)
  have "key @ rest = r" unfolding key_def rest_def by (rule takeWhile_dropWhile_id)
  then have r: "r = key @ CHR ''='' # v @ CHR ''>'' # post" by (simp only: rest u)
  have k: "CHR ''='' \<notin> set key" unfolding key_def by (auto dest: set_takeWhileD)
  have "list_all is_word (takeWhile is_word u)" by (rule list_all_takeWhile)
  then have va: "list_all is_word v" by (simp only: vu)
  from t r have "t = CHR ''<'' # key @ CHR ''='' # v @ CHR ''>'' # post" by simp
  with kne k vne va n show ?thesis by blast
qed

lemma starts_at:
  assumes "drop k t = c # u"
  shows "k < length t \<and> t ! k = c"
proof -
  from assms have "drop k t \<noteq> []" by simp
  then have k: "k < length t" by simp
  then have "t ! k = hd (drop k t)" by (simp add: hd_drop_conv_nth)
  with assms k show ?thesis by simp
qed

lemma var_no_overlap:
  assumes m: "match_var_here t = Some (x, n)" and k: "0 < k" "k < n"
    and m': "match_var_here (drop k t) = Some (x', n')"
  shows "x' = x"
proof -
  from match_var_here_Some [OF m] obtain post
    where t: "t = CHR ''{'' # x @ CHR ''}'' # post" and w: "list_all is_word x" and n: "n = length x + 2"
    by blast
  from match_var_here_Some [OF m'] obtain post' where "drop k t = CHR ''{'' # x' @ CHR ''}'' # post'"
    by blast
  from starts_at [OF this] have b: "t ! k = CHR ''{''" by simp
  from k obtain j where j: "k = Suc j" by (cases k) auto
  with k n have jl: "j \<le> length x" by simp
  from t j have "t ! k = (x @ CHR ''}'' # post) ! j" by simp
  with b have c: "(x @ CHR ''}'' # post) ! j = CHR ''{''" by simp
  show ?thesis
  proof (cases "j < length x")
    case True
    with c have "x ! j = CHR ''{''" by (simp add: nth_append)
    with True w have "is_word CHR ''{''" by (metis list_all_length)
    with not_word_special(1) show ?thesis by simp
  next
    case False
    with jl have "j = length x" by simp
    with c show ?thesis by (simp add: nth_append)
  qed
qed

lemma attr_overlap:
  assumes m: "match_attr_here t = Some (x, n)" and k: "0 < k" "k < n"
    and m': "match_attr_here (drop k t) = Some (x', n')"
  shows "x' = x"
proof -
  from match_attr_here_Some [OF m] obtain key post
    where t: "t = CHR ''<'' # key @ CHR ''='' # x @ CHR ''>'' # post"
      and ke: "CHR ''='' \<notin> set key" and w: "list_all is_word x" and n: "n = length key + length x + 3"
    by blast
  from match_attr_here_Some [OF m'] obtain key' post'
    where "drop k t = CHR ''<'' # key' @ CHR ''='' # x' @ CHR ''>'' # post'"
    by blast
  from starts_at [OF this] have b: "t ! k = CHR ''<''" by simp
  from k obtain j where j: "k = Suc j" by (cases k) auto
  with k n have jl: "j < length key + length x + 2" by simp
  from t j have "t ! k = (key @ CHR ''='' # x @ CHR ''>'' # post) ! j" by simp
  with b have c: "(key @ CHR ''='' # x @ CHR ''>'' # post) ! j = CHR ''<''" by simp
  have inkey: "j < length key"
  proof (rule ccontr)
    assume "\<not> j < length key"
    then have ge: "length key \<le> j" by simp
    define i where "i = j - length key"
    from ge c have c2: "(CHR ''='' # x @ CHR ''>'' # post) ! i = CHR ''<''"
      by (simp add: nth_append i_def)
    from ge jl have il: "i < length x + 2" by (simp add: i_def)
    show False
    proof (cases i)
      case 0
      with c2 show False by simp
    next
      case (Suc i')
      with c2 have c3: "(x @ CHR ''>'' # post) ! i' = CHR ''<''" by simp
      show False
      proof (cases "i' < length x")
        case True
        with c3 have "x ! i' = CHR ''<''" by (simp add: nth_append)
        with True w have "is_word CHR ''<''" by (metis list_all_length)
        with not_word_special(3) show False by simp
      next
        case False
        with il Suc have "i' = length x" by simp
        with c3 show False by (simp add: nth_append)
      qed
    qed
  qed
  define key2 where "key2 = drop (Suc j) key"
  from inkey c have kj: "key ! j = CHR ''<''" by (simp add: nth_append)
  from inkey have "drop j key = key ! j # key2"
    by (simp add: key2_def Cons_nth_drop_Suc)
  with kj have dk: "drop j key = CHR ''<'' # key2" by simp
  from t j inkey have "drop k t = drop j key @ CHR ''='' # x @ CHR ''>'' # post" by simp
  with dk have d: "drop k t = CHR ''<'' # key2 @ CHR ''='' # x @ CHR ''>'' # post" by simp
  have "set key2 \<subseteq> set key" unfolding key2_def by (rule set_drop_subset)
  with ke have "CHR ''='' \<notin> set key2" by blast
  from match_attr_here_shape [OF this w, of post] m' d
  show ?thesis by (simp split: if_splits)
qed

lemma match_var_here_Nil: "match_var_here [] = None"
  by (simp add: match_var_here_def)

lemma match_attr_here_Nil: "match_attr_here [] = None"
  by (simp add: match_attr_here_def)

lemma scan_vars_set: "set (scan_all match_var_here s) = brace_identifiers s"
proof (intro set_eqI iffI)
  fix w
  assume "w \<in> set (scan_all match_var_here s)"
  from scan_all_sound [OF this] obtain pre t n where s: "s = pre @ t" and m: "match_var_here t = Some (w, n)"
    by blast
  from match_var_here_Some [OF m] obtain post
    where "t = CHR ''{'' # w @ CHR ''}'' # post" and "w \<noteq> []" and "list_all is_word w"
    by blast
  with s show "w \<in> brace_identifiers s"
    by (auto simp add: brace_identifiers_def)
next
  fix w
  assume "w \<in> brace_identifiers s"
  then obtain pre post where s: "s = pre @ CHR ''{'' # w @ CHR ''}'' # post"
    and ne: "w \<noteq> []" and w: "list_all is_word w"
    by (auto simp add: brace_identifiers_def)
  from match_var_here_shape [OF w, of post] ne
  have "match_var_here (CHR ''{'' # w @ CHR ''}'' # post) = Some (w, length w + 2)" by simp
  then have "w \<in> set (scan_all match_var_here (pre @ CHR ''{'' # w @ CHR ''}'' # post))"
  proof (rule scan_all_complete [rotated 2])
    show "match_var_here [] = None" by (rule match_var_here_Nil)
  next
    fix t x n k x' n'
    assume "match_var_here t = Some (x, n)" and "0 < k" and "k < n"
      and "match_var_here (drop k t) = Some (x', n')"
    then show "x' = x" by (rule var_no_overlap)
  qed
  then show "w \<in> set (scan_all match_var_here s)" by (simp only: s)
qed

lemma scan_attrs_set: "set (scan_all match_attr_here s) = tag_attribute_values s \<union> overrun_values s"
proof (intro set_eqI iffI)
  fix v
  assume "v \<in> set (scan_all match_attr_here s)"
  from scan_all_sound [OF this] obtain pre t n where s: "s = pre @ t" and m: "match_attr_here t = Some (v, n)"
    by blast
  from match_attr_here_Some [OF m] obtain key post
    where t: "t = CHR ''<'' # key @ CHR ''='' # v @ CHR ''>'' # post" and k: "key \<noteq> []"
      and e: "CHR ''='' \<notin> set key" and v: "v \<noteq> []" "list_all is_word v"
    by blast
  from s t have d: "s = pre @ ''<'' @ key @ ''='' @ v @ ''>'' @ post" by simp
  show "v \<in> tag_attribute_values s \<union> overrun_values s"
  proof (cases "CHR ''>'' \<in> set key")
    case True
    with k e v d have "v \<in> overrun_values s"
      unfolding overrun_values_def by blast
    then show ?thesis by simp
  next
    case False
    with k e v d have "v \<in> tag_attribute_values s"
      unfolding tag_attribute_values_def by blast
    then show ?thesis by simp
  qed
next
  fix v
  assume "v \<in> tag_attribute_values s \<union> overrun_values s"
  then obtain pre key post where s: "s = pre @ CHR ''<'' # key @ CHR ''='' # v @ CHR ''>'' # post"
    and kne: "key \<noteq> []" and ke: "CHR ''='' \<notin> set key" and ne: "v \<noteq> []" and w: "list_all is_word v"
    by (auto simp add: tag_attribute_values_def overrun_values_def)
  from match_attr_here_shape [OF ke w, of post] kne ne
  have "match_attr_here (CHR ''<'' # key @ CHR ''='' # v @ CHR ''>'' # post)
          = Some (v, length key + length v + 3)" by simp
  then have "v \<in> set (scan_all match_attr_here (pre @ CHR ''<'' # key @ CHR ''='' # v @ CHR ''>'' # post))"
  proof (rule scan_all_complete [rotated 2])
    show "match_attr_here [] = None" by (rule match_attr_here_Nil)
  next
    fix t x n k x' n'
    assume "match_attr_here t = Some (x, n)" and "0 < k" and "k < n"
      and "match_attr_here (drop k t) = Some (x', n')"
    then show "x' = x" by (rule attr_overlap)
  qed
  then show "v \<in> set (scan_all match_attr_here s)" by (simp only: s)
qed

lemma extractPlaceholders_set:
  "set (extractPlaceholders s) = brace_identifiers s \<union> (tag_attribute_values s \<union> overrun_values s)"
  by (simp add: extractPlaceholders_def set_foldl_set_add scan_vars_set scan_attrs_set)

lemma extractPlaceholders_distinct: "distinct (extractPlaceholders s)"
  by (simp add: extractPlaceholders_def distinct_foldl_set_add)

lemma set_test:
  assumes "distinct a" and "distinct b"
  shows "(length a \<noteq> length b \<or> \<not> list_all (\<lambda>ph. ph \<in> set b) a) \<longleftrightarrow> set a \<noteq> set b"
proof
  assume "length a \<noteq> length b \<or> \<not> list_all (\<lambda>ph. ph \<in> set b) a"
  then show "set a \<noteq> set b"
  proof
    assume "length a \<noteq> length b"
    with assms show ?thesis by (metis distinct_card)
  next
    assume "\<not> list_all (\<lambda>ph. ph \<in> set b) a"
    then show ?thesis by (auto simp add: list_all_iff)
  qed
next
  assume ne: "set a \<noteq> set b"
  show "length a \<noteq> length b \<or> \<not> list_all (\<lambda>ph. ph \<in> set b) a"
  proof (rule ccontr)
    assume "\<not> (length a \<noteq> length b \<or> \<not> list_all (\<lambda>ph. ph \<in> set b) a)"
    then have l: "length a = length b" and s: "set a \<subseteq> set b" by (auto simp add: list_all_iff)
    from l assms have "card (set a) = card (set b)" by (simp add: distinct_card)
    with s have "set a = set b" by (simp add: card_subset_eq)
    with ne show False by simp
  qed
qed

lemma placeholder_entry:
  "PlaceholderMismatch rowNo key missing extra \<in> set (compare rowNo key original translated)
     \<longleftrightarrow> set (extractPlaceholders original) \<noteq> set (extractPlaceholders translated)
          \<and> missing = filter (\<lambda>ph. ph \<notin> set (extractPlaceholders translated)) (extractPlaceholders original)
          \<and> extra = filter (\<lambda>ph. ph \<notin> set (extractPlaceholders original)) (extractPlaceholders translated)"
proof -
  have t: "(length (extractPlaceholders original) \<noteq> length (extractPlaceholders translated)
          \<or> \<not> list_all (\<lambda>ph. ph \<in> set (extractPlaceholders translated)) (extractPlaceholders original))
        \<longleftrightarrow> set (extractPlaceholders original) \<noteq> set (extractPlaceholders translated)"
    by (rule set_test) (rule extractPlaceholders_distinct)+
  show ?thesis
    unfolding compare_def Let_def
    by (simp only: t set_append) auto
qed

text \<open>
  Claim C7, as the code has it by design. The placeholder set, one duplicate-free set for
  both kinds, holds every identifier that occurs in braces and the value of every tag
  \<open><key=value>\<close> whose value is an identifier (letters, digits, underscore); a tag whose
  value has another character gives nothing. Where the matches that are not one tag add no
  further value, and so where there is none, the set holds exactly these. A placeholder
  mismatch is reported exactly when the sets of the original and of the translation differ,
  whatever the order, and it reports the identifiers of the original missing in the
  translation and those of the translation not in the original.
\<close>

theorem placeholder_set_and_comparison:
  "brace_identifiers s \<union> tag_attribute_values s \<subseteq> set (extractPlaceholders s)
   \<and> (overrun_values s \<subseteq> brace_identifiers s \<union> tag_attribute_values s \<longrightarrow>
        set (extractPlaceholders s) = brace_identifiers s \<union> tag_attribute_values s)
   \<and> distinct (extractPlaceholders s)
   \<and> ((\<exists>missing extra. PlaceholderMismatch rowNo key missing extra
                          \<in> set (compare rowNo key original translated))
        \<longleftrightarrow> set (extractPlaceholders original) \<noteq> set (extractPlaceholders translated))
   \<and> (\<forall>missing extra. PlaceholderMismatch rowNo key missing extra
                          \<in> set (compare rowNo key original translated) \<longrightarrow>
          set missing = set (extractPlaceholders original) - set (extractPlaceholders translated)
          \<and> set extra = set (extractPlaceholders translated) - set (extractPlaceholders original))"
proof (intro conjI)
  show "brace_identifiers s \<union> tag_attribute_values s \<subseteq> set (extractPlaceholders s)"
    by (simp only: extractPlaceholders_set) blast
  show "overrun_values s \<subseteq> brace_identifiers s \<union> tag_attribute_values s \<longrightarrow>
        set (extractPlaceholders s) = brace_identifiers s \<union> tag_attribute_values s"
    by (simp only: extractPlaceholders_set) blast
  show "distinct (extractPlaceholders s)"
    by (rule extractPlaceholders_distinct)
  show "(\<exists>missing extra. PlaceholderMismatch rowNo key missing extra
                          \<in> set (compare rowNo key original translated))
        \<longleftrightarrow> set (extractPlaceholders original) \<noteq> set (extractPlaceholders translated)"
    by (simp only: placeholder_entry) blast
  show "\<forall>missing extra. PlaceholderMismatch rowNo key missing extra
                          \<in> set (compare rowNo key original translated) \<longrightarrow>
          set missing = set (extractPlaceholders original) - set (extractPlaceholders translated)
          \<and> set extra = set (extractPlaceholders translated) - set (extractPlaceholders original)"
    by (simp only: placeholder_entry) auto
qed

theorem placeholder_set_and_comparison_witness:
  "overrun_values ''Hi {name}, <color=red>{count}</color>''
     \<subseteq> brace_identifiers ''Hi {name}, <color=red>{count}</color>''
         \<union> tag_attribute_values ''Hi {name}, <color=red>{count}</color>''
   \<and> brace_identifiers ''Hi {name}, <color=red>{count}</color>''
     \<union> tag_attribute_values ''Hi {name}, <color=red>{count}</color>'' = {''name'', ''count'', ''red''}
   \<and> compare 7 (Some ''k'') ''{a}{b}'' ''{b} {a}'' = []
   \<and> compare 7 (Some ''k'') ''{a}'' ''{a}{b}'' = [PlaceholderMismatch 7 (Some ''k'') [] [''b'']]
   \<and> set (extractPlaceholders ''{a}'') \<noteq> set (extractPlaceholders ''{a}{b}'')"
proof -
  let ?s = "''Hi {name}, <color=red>{count}</color>''"
  have e: "extractPlaceholders ?s = [''name'', ''count'', ''red'']"
    by code_simp
  have a: "scan_all match_attr_here ?s = [''red'']"
    by code_simp
  have c1: "compare 7 (Some ''k'') ''{a}{b}'' ''{b} {a}'' = []"
    by code_simp
  have c2: "compare 7 (Some ''k'') ''{a}'' ''{a}{b}'' = [PlaceholderMismatch 7 (Some ''k'') [] [''b'']]"
    by code_simp
  have w: "list_all is_word ''red''"
    by (simp add: is_word_def is_digit_def)
  have "?s = ''Hi {name}, '' @ ''<'' @ ''color'' @ ''='' @ ''red'' @ ''>'' @ ''{count}</color>''"
    by simp
  with w have r: "''red'' \<in> tag_attribute_values ?s"
    unfolding tag_attribute_values_def by (intro CollectI conjI exI [of _ "''Hi {name}, ''"]
      exI [of _ "''color''"] exI [of _ "''{count}</color>''"]) simp_all
  have "overrun_values ?s \<subseteq> set (scan_all match_attr_here ?s)"
    by (simp only: scan_attrs_set) blast
  then have "overrun_values ?s \<subseteq> {''red''}"
    by (simp only: a) simp
  with r have o: "overrun_values ?s \<subseteq> brace_identifiers ?s \<union> tag_attribute_values ?s"
    by blast
  note t = placeholder_set_and_comparison [of ?s 7 "Some ''k''" "''{a}''" "''{a}{b}''"]
  from t o have "set (extractPlaceholders ?s) = brace_identifiers ?s \<union> tag_attribute_values ?s"
    by blast
  then have s: "brace_identifiers ?s \<union> tag_attribute_values ?s = {''name'', ''count'', ''red''}"
    by (simp only: e) simp
  have "PlaceholderMismatch 7 (Some ''k'') [] [''b''] \<in> set (compare 7 (Some ''k'') ''{a}'' ''{a}{b}'')"
    by (simp only: c2) simp
  with t have n: "set (extractPlaceholders ''{a}'') \<noteq> set (extractPlaceholders ''{a}{b}'')"
    by blast
  from o s c1 c2 n show ?thesis by blast
qed

text \<open>
  A tag whose value is not an identifier gives no placeholder, and a value is taken from
  a text that is not one tag.
\<close>

theorem attribute_value_outside_identifier:
  "extractTags ''<color=#ff0000>'' = [''<color=#ff0000>'']
   \<and> spec_tag_value ''<color=#ff0000>'' = Some ''#ff0000''
   \<and> extractPlaceholders ''<color=#ff0000>'' = []
   \<and> extractTags ''<a>b=c>'' = [''<a>'']
   \<and> spec_tag_value ''<a>'' = None
   \<and> extractPlaceholders ''<a>b=c>'' = [''c'']"
  by code_simp

end
